theory Spec2Isabelle
  imports Main "HOL-Library.Word" "HOL-Library.AList" "HOL-Library.Sublist"
    "HOL-Library.Char_ord" "HOL-Library.List_Lexorder"
begin

unbundle bit_operations_syntax

chapter \<open>A Bitcask key-value store: the engine, its segments and its codecs\<close>

text \<open>
  The Go sources are embedded function by function. Byte slices are lists of \<open>8 word\<close>,
  \<open>uint32\<close> and \<open>uint64\<close> are words, \<open>int\<close> and \<open>int64\<close> are integers (segment ids wrap
  where the code adds to them; offsets and lengths are bounded by the size of a file and
  do not). The directory on disk is passed through every function that touches it; an
  error return is the left summand of a result or \<open>Some\<close> error. The engine's mutex is not
  modelled: the operations are taken one at a time.
\<close>

section \<open>Errors\<close>

text \<open>
  Every error value the engine, the segment, the two codecs and the library calls they
  make can return. \<open>Panic\<close> stands for a Go run-time panic (slice bounds out of range,
  nil dereference, negative \<open>make\<close>); \<open>ErrNotExist\<close>, \<open>ErrClosed\<close>, \<open>ErrWrite\<close> and
  \<open>ErrOffset\<close> are the operating system's errors for a missing file, a closed handle, a
  failed write and a bad read offset; \<open>NumError\<close> is the error of \<open>strconv.ParseInt\<close>;
  \<open>Wrap e\<close> is \<open>errors.Wrap(e, ...)\<close>, which is a different value from \<open>e\<close>.
\<close>

datatype error =
    ErrKeyNotFound | ErrKeyTooLarge | ErrValueTooLarge | ErrChecksumFailed
  | errInvalidKeyOrValueSize | errCantDecodeOnNilEntry | errTruncatedData
  | errReadOnly | errReadError
  | errTruncatedKeySize | errTruncatedKeyData | errTruncatedIndexData | errKeySizeTooLarge
  | EOF | ErrUnexpectedEOF
  | ErrNotExist string | ErrClosed | ErrWrite | ErrOffset
  | NumError string
  | Wrap error
  | Panic

section \<open>Bytes and big-endian integers (encoding/binary)\<close>

type_synonym byte = "8 word"

definition PutUint32 :: "32 word \<Rightarrow> byte list" where
  "PutUint32 v = [ucast (drop_bit 24 v), ucast (drop_bit 16 v), ucast (drop_bit 8 v), ucast v]"

definition Uint32 :: "byte list \<Rightarrow> 32 word" where
  "Uint32 b = (push_bit 24 (ucast (b ! 0)) OR push_bit 16 (ucast (b ! 1))
               OR push_bit 8 (ucast (b ! 2)) OR ucast (b ! 3))"

definition PutUint64 :: "64 word \<Rightarrow> byte list" where
  "PutUint64 v = [ucast (drop_bit 56 v), ucast (drop_bit 48 v), ucast (drop_bit 40 v),
                  ucast (drop_bit 32 v), ucast (drop_bit 24 v), ucast (drop_bit 16 v),
                  ucast (drop_bit 8 v), ucast v]"

definition Uint64 :: "byte list \<Rightarrow> 64 word" where
  "Uint64 b = (push_bit 56 (ucast (b ! 0)) OR push_bit 48 (ucast (b ! 1))
               OR push_bit 40 (ucast (b ! 2)) OR push_bit 32 (ucast (b ! 3))
               OR push_bit 24 (ucast (b ! 4)) OR push_bit 16 (ucast (b ! 5))
               OR push_bit 8 (ucast (b ! 6)) OR ucast (b ! 7))"

text \<open>
  Go's \<open>int\<close> is 64 bits wide on the platforms the engine runs on: \<open>id + 1\<close> wraps around.
\<close>

definition wrap64 :: "int \<Rightarrow> int" where
  "wrap64 x = (x + 2 ^ 63) mod 2 ^ 64 - 2 ^ 63"

section \<open>CRC-32 (hash/crc32, IEEE polynomial)\<close>

definition crc_bit :: "32 word \<Rightarrow> 32 word" where
  "crc_bit c = (if bit c 0 then drop_bit 1 c XOR 0xEDB88320 else drop_bit 1 c)"

definition crc_byte :: "32 word \<Rightarrow> byte \<Rightarrow> 32 word" where
  "crc_byte c b = (crc_bit ^^ 8) (c XOR ucast b)"

definition ChecksumIEEE :: "byte list \<Rightarrow> 32 word" where
  "ChecksumIEEE bs = NOT (foldl crc_byte 0xFFFFFFFF bs)"

section \<open>internal: Entry, Item, Config\<close>

record Entry =
  Checksum :: "32 word"
  Key :: "byte list"
  Offset :: int
  Value :: "byte list"

definition zeroEntry :: Entry where
  "zeroEntry = \<lparr>Checksum = 0, Key = [], Offset = 0, Value = []\<rparr>"

definition NewEntry :: "byte list \<Rightarrow> byte list \<Rightarrow> Entry" where
  "NewEntry key val = \<lparr>Checksum = ChecksumIEEE val, Key = key, Offset = 0, Value = val\<rparr>"

text \<open>
  Modelled from the spec: the struct \<open>internal.Item\<close> is declared in a file that is not
  among the sources; the engine builds it with the fields \<open>FileID\<close>, \<open>Offset\<close> and
  \<open>Size\<close>, the spec's directory entry \<open>{segment_id, offset, length}\<close>.
\<close>

record Item =
  FileID :: int
  ItemOffset :: int
  ItemSize :: int

record Config =
  MaxDatafileSize :: int
  MaxKeySize :: "32 word"
  MaxValueSize :: "64 word"
  Sync :: bool

section \<open>internal/data/codec\<close>

definition keySize :: nat where "keySize = 4"
definition valueSize :: nat where "valueSize = 8"
definition checksumSize :: nat where "checksumSize = 4"

text \<open>The bytes \<open>Encoder.Encode\<close> hands to its writer, and the length it returns.\<close>

definition EncodeBytes :: "Entry \<Rightarrow> byte list" where
  "EncodeBytes entry =
     PutUint32 (of_nat (length (Key entry))) @ PutUint64 (of_nat (length (Value entry)))
     @ Key entry @ Value entry @ PutUint32 (Checksum entry)"

definition EncodeLen :: "Entry \<Rightarrow> int" where
  "EncodeLen entry =
     int (keySize + valueSize + length (Key entry) + length (Value entry) + checksumSize)"

text \<open>
  \<open>getKeyValueSizes\<close> slices \<open>b[:4]\<close> and reads eight bytes of \<open>b[4:]\<close>: a buffer shorter
  than twelve bytes panics.
\<close>

definition getKeyValueSizes ::
  "byte list \<Rightarrow> 32 word \<Rightarrow> 64 word \<Rightarrow> error + (32 word \<times> 64 word)" where
  "getKeyValueSizes b maxKeySize maxValueSize =
     (if length b < keySize + valueSize then Inl Panic
      else
        let actualKeySize = Uint32 (take keySize b);
            actualValueSize = Uint64 (drop keySize b)
        in if actualKeySize > maxKeySize \<or> actualValueSize > maxValueSize \<or> actualKeySize = 0
           then Inl errInvalidKeyOrValueSize
           else Inr (actualKeySize, actualValueSize))"

text \<open>
  \<open>decodeWithoutPrefix\<close> writes through the entry pointer; \<open>None\<close> is the panic of a slice
  expression out of range (\<open>b[:actualKeySize]\<close>, \<open>b[actualKeySize : len(b)-4]\<close>).
\<close>

definition decodeWithoutPrefix :: "byte list \<Rightarrow> 32 word \<Rightarrow> Entry \<Rightarrow> Entry option" where
  "decodeWithoutPrefix b actualKeySize e =
     (if length b < checksumSize \<or> unat actualKeySize > length b - checksumSize then None
      else Some (e\<lparr>Key := take (unat actualKeySize) b,
                   Value := drop (unat actualKeySize) (take (length b - checksumSize) b),
                   Checksum := Uint32 (drop (length b - checksumSize) b)\<rparr>))"

text \<open>
  \<open>DecodeEntry\<close>: \<open>Inr\<close> is a nil error with the entry as the call left it.
\<close>

definition DecodeEntry :: "byte list \<Rightarrow> Entry \<Rightarrow> 32 word \<Rightarrow> 64 word \<Rightarrow> error + Entry" where
  "DecodeEntry b e maxKeySize maxValueSize =
     (case getKeyValueSizes b maxKeySize maxValueSize of
        Inl Panic \<Rightarrow> Inl Panic
      | Inl err \<Rightarrow> Inl (Wrap err)
      | Inr (actualKeySize, _) \<Rightarrow>
          (case decodeWithoutPrefix (drop (keySize + valueSize) b) actualKeySize e of
             None \<Rightarrow> Inl Panic
           | Some e' \<Rightarrow> Inr e'))"

text \<open>
  \<open>Decoder.Decode\<close> on a reader whose remaining bytes are \<open>bs\<close>: the result, and how many
  bytes the two \<open>io.ReadFull\<close> calls took from the reader. The entry decoded into is the
  zero entry of \<open>datafile.Read\<close>. The length of the second buffer is computed in
  \<open>uint64\<close>, the returned length is its conversion to \<open>int64\<close>.
\<close>

definition Decode :: "byte list \<Rightarrow> 32 word \<Rightarrow> 64 word \<Rightarrow> (error + Entry \<times> int) \<times> nat" where
  "Decode bs maxKeySize maxValueSize =
     (if bs = [] then (Inl EOF, 0)
      else if length bs < keySize + valueSize then (Inl ErrUnexpectedEOF, length bs)
      else
        (case getKeyValueSizes (take (keySize + valueSize) bs) maxKeySize maxValueSize of
           Inl err \<Rightarrow> (Inl err, keySize + valueSize)
         | Inr (actualKeySize, actualValueSize) \<Rightarrow>
             (let m = unat (ucast actualKeySize + actualValueSize + 4 :: 64 word);
                  rest = drop (keySize + valueSize) bs
              in if length rest < m then (Inl errTruncatedData, length bs)
                 else
                   (case decodeWithoutPrefix (take m rest) actualKeySize zeroEntry of
                      None \<Rightarrow> (Inl Panic, keySize + valueSize + m)
                    | Some e \<Rightarrow>
                        (Inr (e, sint (12 + ucast actualKeySize + actualValueSize + 4 :: 64 word)),
                         keySize + valueSize + m)))))"

section \<open>The directory on disk\<close>

text \<open>
  The files of the database directory, by full name, with their bytes. \<open>faults\<close> is the
  environment's schedule for the appends to come: \<open>True\<close> makes the next append fail (a
  full disk), an empty schedule lets every append succeed; a failed append is taken to
  leave the file as it was. Other calls fail only for the reasons the model holds itself
  (a missing file, a closed handle, a read past the end). \<open>trace\<close> records the calls made
  on segment files, in order: \<open>EvOpen fn ro\<close> is \<open>NewDatafile\<close> opening \<open>fn\<close> (read-only or
  for appending), attempted whether it succeeds or not, \<open>EvAppend fn bytes\<close> a completed
  append of \<open>bytes\<close> to \<open>fn\<close>, \<open>EvFsync fn\<close> the \<open>Sync\<close> of its write handle, \<open>EvClose fn\<close> the
  closing of its write handle.
\<close>

datatype event =
    EvOpen string bool
  | EvAppend string "byte list"
  | EvFsync string
  | EvClose string

record disk =
  files :: "(string \<times> byte list) list"
  faults :: "bool list"
  trace :: "event list"

definition emit :: "event \<Rightarrow> disk \<Rightarrow> disk" where
  "emit ev s = s\<lparr>trace := trace s @ [ev]\<rparr>"

definition content :: "disk \<Rightarrow> string \<Rightarrow> byte list" where
  "content s fn = (case map_of (files s) fn of None \<Rightarrow> [] | Some bs \<Rightarrow> bs)"

definition Exists :: "disk \<Rightarrow> string \<Rightarrow> bool" where
  "Exists s fn = (map_of (files s) fn \<noteq> None)"

text \<open>\<open>filepath.Join\<close> of a clean directory name and a file name.\<close>

definition Join :: "string \<Rightarrow> string \<Rightarrow> string" where
  "Join dir name = dir @ ''/'' @ name"

section \<open>internal/utils.go\<close>

text \<open>
  \<open>filepath.Glob(path/*.data)\<close> followed by \<open>sort.Strings\<close>: the names directly under
  \<open>path\<close> that end in \<open>.data\<close>, in byte order.
\<close>

definition GetDatafiles :: "string \<Rightarrow> disk \<Rightarrow> string list" where
  "GetDatafiles path s =
     sort (filter (\<lambda>fn. prefix (path @ ''/'') fn
                        \<and> CHR ''/'' \<notin> set (drop (length path + 1) fn)
                        \<and> suffix ''.data'' (drop (length path + 1) fn))
                  (map fst (files s)))"

text \<open>\<open>filepath.Base\<close>, \<open>filepath.Ext\<close>, \<open>strings.TrimSuffix\<close>.\<close>

definition Base :: "string \<Rightarrow> string" where
  "Base p =
     (if p = [] then ''.''
      else let q = rev (dropWhile (\<lambda>c. c = CHR ''/'') (rev p))
           in if q = [] then ''/'' else rev (takeWhile (\<lambda>c. c \<noteq> CHR ''/'') (rev q)))"

fun ext_scan :: "string \<Rightarrow> string \<Rightarrow> string" where
  "ext_scan [] acc = []"
| "ext_scan (c # cs) acc =
     (if c = CHR ''/'' then []
      else if c = CHR ''.'' then c # acc
      else ext_scan cs (c # acc))"

definition Ext :: "string \<Rightarrow> string" where
  "Ext p = ext_scan (rev p) []"

definition TrimSuffix :: "string \<Rightarrow> string \<Rightarrow> string" where
  "TrimSuffix s suf = (if suffix suf s then take (length s - length suf) s else s)"

text \<open>\<open>strconv.ParseInt(s, 10, 64)\<close>: an optional sign, decimal digits, the range of \<open>int64\<close>.\<close>

definition digit_val :: "char \<Rightarrow> nat option" where
  "digit_val c = map_of (zip ''0123456789'' [0, 1, 2, 3, 4, 5, 6, 7, 8, 9]) c"

fun parse_uint :: "string \<Rightarrow> nat \<Rightarrow> nat option" where
  "parse_uint [] acc = Some acc"
| "parse_uint (c # cs) acc =
     (case digit_val c of None \<Rightarrow> None | Some d \<Rightarrow> parse_uint cs (10 * acc + d))"

definition ParseInt :: "string \<Rightarrow> error + int" where
  "ParseInt s =
     (if s = [] then Inl (NumError s)
      else
        let neg = (hd s = CHR ''-'');
            ds = (if hd s = CHR ''+'' \<or> hd s = CHR ''-'' then tl s else s)
        in if ds = [] then Inl (NumError s)
           else (case parse_uint ds 0 of
                   None \<Rightarrow> Inl (NumError s)
                 | Some n \<Rightarrow>
                     if \<not> neg \<and> n \<ge> 2 ^ 63 then Inl (NumError s)
                     else if neg \<and> n > 2 ^ 63 then Inl (NumError s)
                     else Inr (if neg then - int n else int n)))"

text \<open>
  \<open>ParseIds\<close>. The slice is made with length \<open>len(fns)\<close>, so it starts as that many
  zeros, and every parsed id is appended behind them.
\<close>

fun parse_each :: "string list \<Rightarrow> int list \<Rightarrow> error + int list" where
  "parse_each [] ids = Inr ids"
| "parse_each (fn # fns) ids =
     (case ParseInt (TrimSuffix (Base fn) (Ext fn)) of
        Inl err \<Rightarrow> Inl err
      | Inr i \<Rightarrow> parse_each fns (ids @ [i]))"

definition ParseIds :: "string list \<Rightarrow> error + int list" where
  "ParseIds fns =
     (case parse_each fns (replicate (length fns) 0) of
        Inl err \<Rightarrow> Inl err
      | Inr ids \<Rightarrow> Inr (sort ids))"

section \<open>internal/data: the segment\<close>

text \<open>\<open>fmt.Sprintf("%09d.data", id)\<close>: zero-padded to nine characters, the sign included.\<close>

fun digits :: "nat \<Rightarrow> string" where
  "digits n = (if n < 10 then [''0123456789'' ! n]
               else digits (n div 10) @ [''0123456789'' ! (n mod 10)])"

definition pad0 :: "nat \<Rightarrow> string \<Rightarrow> string" where
  "pad0 width ds = replicate (width - length ds) (CHR ''0'') @ ds"

definition defaultDatafileFilename :: "int \<Rightarrow> string" where
  "defaultDatafileFilename i =
     (if i < 0 then ''-'' @ pad0 8 (digits (nat (- i))) else pad0 9 (digits (nat i))) @ ''.data''"

text \<open>
  A \<open>datafile\<close>. The handles are kept as what they denote: \<open>df_name\<close> is the file all three
  were opened on, \<open>df_r\<close> the position of the sequential reader \<open>r\<close>, \<open>df_ra\<close> the bytes the
  memory map \<open>ra\<close> holds (the file as it was when opened), \<open>df_w\<close> whether the write handle
  \<open>w\<close> is non-nil, \<open>df_closed\<close> whether \<open>Close\<close> has released them, \<open>df_werr\<close> whether the
  encoder's buffered writer has met an error (it then refuses every later write).
\<close>

record datafile =
  df_name :: string
  df_r :: nat
  df_ra :: "byte list"
  df_w :: bool
  df_id :: int
  df_offset :: int
  df_maxKeySize :: "32 word"
  df_maxValueSize :: "64 word"
  df_closed :: bool
  df_werr :: bool

definition NewDatafile ::
  "string \<Rightarrow> int \<Rightarrow> bool \<Rightarrow> 32 word \<Rightarrow> 64 word \<Rightarrow> disk \<Rightarrow> (error + datafile) \<times> disk" where
  "NewDatafile path i readonly maxKeySize maxValueSize s =
     (let fn = Join path (defaultDatafileFilename i);
          s1 = emit (EvOpen fn readonly) s;
          s2 = (if \<not> readonly \<and> \<not> Exists s1 fn then s1\<lparr>files := files s1 @ [(fn, [])]\<rparr> else s1)
      in if \<not> Exists s2 fn then (Inl (ErrNotExist fn), s2)
         else (Inr \<lparr>df_name = fn, df_r = 0, df_ra = content s2 fn, df_w = \<not> readonly, df_id = i,
                    df_offset = int (length (content s2 fn)),
                    df_maxKeySize = maxKeySize, df_maxValueSize = maxValueSize,
                    df_closed = False, df_werr = False\<rparr>, s2))"

definition FileID_of :: "datafile \<Rightarrow> int" where
  "FileID_of d = df_id d"

definition Size :: "datafile \<Rightarrow> int" where
  "Size d = df_offset d"

definition Sync_df :: "datafile \<Rightarrow> disk \<Rightarrow> error option \<times> disk" where
  "Sync_df d s =
     (if \<not> df_w d then (Some errReadOnly, s)
      else if df_closed d then (Some ErrClosed, s)
      else (None, emit (EvFsync (df_name d)) s))"

text \<open>\<open>datafile.Read\<close>: one \<open>Decode\<close> from the sequential reader, which moves on.\<close>

definition Read :: "datafile \<Rightarrow> disk \<Rightarrow> (error + Entry \<times> int) \<times> datafile" where
  "Read d s =
     (if df_closed d then (Inl ErrClosed, d)
      else
        (case Decode (drop (df_r d) (content s (df_name d))) (df_maxKeySize d) (df_maxValueSize d) of
           (res, used) \<Rightarrow> (res, d\<lparr>df_r := df_r d + used\<rparr>)))"

text \<open>
  The two positioned reads: \<open>mmap.ReaderAt.ReadAt\<close> on the bytes mapped at opening (an
  empty file has no mapping), \<open>os.File.ReadAt\<close> on the file as it is now.
\<close>

definition mmap_ReadAt :: "byte list \<Rightarrow> int \<Rightarrow> nat \<Rightarrow> error + byte list" where
  "mmap_ReadAt mapped off n =
     (if mapped = [] then Inl ErrClosed
      else if off < 0 \<or> int (length mapped) < off then Inl ErrOffset
      else if length (drop (nat off) mapped) < n then Inl EOF
      else Inr (take n (drop (nat off) mapped)))"

definition file_ReadAt :: "byte list \<Rightarrow> int \<Rightarrow> nat \<Rightarrow> error + byte list" where
  "file_ReadAt bytes off n =
     (if off < 0 then Inl ErrOffset
      else if n = 0 then Inr []
      else if length (drop (nat off) bytes) < n then Inl EOF
      else Inr (take n (drop (nat off) bytes)))"

text \<open>
  \<open>datafile.ReadAt\<close>. The error \<open>DecodeEntry\<close> returns is dropped: only a panic inside it
  is not.
\<close>

definition ReadAt :: "datafile \<Rightarrow> disk \<Rightarrow> int \<Rightarrow> int \<Rightarrow> error + Entry" where
  "ReadAt d s off sz =
     (if sz < 0 then Inl Panic
      else if df_closed d then Inl ErrClosed
      else
        (case (if \<not> df_w d then mmap_ReadAt (df_ra d) off (nat sz)
               else file_ReadAt (content s (df_name d)) off (nat sz)) of
           Inl err \<Rightarrow> Inl err
         | Inr b \<Rightarrow>
             if int (length b) \<noteq> sz then Inl errReadError
             else (case DecodeEntry b zeroEntry (df_maxKeySize d) (df_maxValueSize d) of
                     Inl Panic \<Rightarrow> Inl Panic
                   | Inl _ \<Rightarrow> Inr zeroEntry
                   | Inr e \<Rightarrow> Inr e)))"

text \<open>\<open>Encoder.Encode\<close> on the write handle of \<open>fn\<close>, opened with \<open>O_APPEND\<close>.\<close>

definition Encode :: "string \<Rightarrow> Entry \<Rightarrow> disk \<Rightarrow> (error + int) \<times> disk" where
  "Encode fn entry s =
     (case faults s of
        True # fs \<Rightarrow> (Inl (Wrap ErrWrite), s\<lparr>faults := fs\<rparr>)
      | _ \<Rightarrow>
          (Inr (EncodeLen entry),
           emit (EvAppend fn (EncodeBytes entry))
             (s\<lparr>files := AList.update fn (content s fn @ EncodeBytes entry) (files s),
                faults := tl (faults s)\<rparr>)))"

definition Write :: "datafile \<Rightarrow> Entry \<Rightarrow> disk \<Rightarrow> (error + int \<times> int) \<times> datafile \<times> disk" where
  "Write d e s =
     (if \<not> df_w d then (Inl errReadOnly, d, s)
      else if df_werr d then (Inl (Wrap ErrWrite), d, s)
      else if df_closed d then (Inl (Wrap ErrClosed), d\<lparr>df_werr := True\<rparr>, s)
      else
        (let e' = e\<lparr>Offset := df_offset d\<rparr> in
         case Encode (df_name d) e' s of
           (Inl err, s') \<Rightarrow> (Inl err, d\<lparr>df_werr := True\<rparr>, s')
         | (Inr n, s') \<Rightarrow> (Inr (Offset e', n), d\<lparr>df_offset := df_offset d + n\<rparr>, s')))"

definition Close_df :: "datafile \<Rightarrow> disk \<Rightarrow> error option \<times> datafile \<times> disk" where
  "Close_df d s =
     (if \<not> df_w d then (None, d\<lparr>df_closed := True\<rparr>, s)
      else
        (case Sync_df d s of
           (Some err, s') \<Rightarrow> (Some err, d\<lparr>df_closed := True\<rparr>, s')
         | (None, s') \<Rightarrow> (None, d\<lparr>df_closed := True\<rparr>, emit (EvClose (df_name d)) s')))"

section \<open>The key directory\<close>

text \<open>
  The adaptive radix tree is a library of its own. It is modelled as the ordered map the
  engine uses it as: an association list with one entry per key, \<open>Insert\<close> overwriting,
  \<open>Delete\<close> a no-op on an absent key, \<open>ForEach\<close> visiting the entries in ascending key
  order.
\<close>

type_synonym tree = "(byte list \<times> Item) list"

definition New :: tree where
  "New = []"

definition Insert :: "byte list \<Rightarrow> Item \<Rightarrow> tree \<Rightarrow> tree" where
  "Insert key item tr = AList.update key item tr"

definition Delete_key :: "byte list \<Rightarrow> tree \<Rightarrow> tree" where
  "Delete_key key tr = AList.delete key tr"

definition Search :: "tree \<Rightarrow> byte list \<Rightarrow> Item option" where
  "Search tr key = map_of tr key"

definition ForEach :: "tree \<Rightarrow> (byte list \<times> Item) list" where
  "ForEach tr = sort_key fst tr"

section \<open>internal/index: the directory snapshot\<close>

definition writeKey :: "byte list \<Rightarrow> byte list" where
  "writeKey b = PutUint32 (of_nat (length b)) @ b"

definition writeItem :: "Item \<Rightarrow> byte list" where
  "writeItem i = PutUint32 (of_int (FileID i)) @ PutUint64 (of_int (ItemOffset i))
                 @ PutUint64 (of_int (ItemSize i))"

definition writeIndex :: "tree \<Rightarrow> byte list" where
  "writeIndex tr = concat (map (\<lambda>(k, i). writeKey k @ writeItem i) (ForEach tr))"

text \<open>The readers return what they read and the bytes left in the reader.\<close>

definition readKey :: "byte list \<Rightarrow> 32 word \<Rightarrow> error + byte list \<times> byte list" where
  "readKey bs maxKeySize =
     (if bs = [] then Inl EOF
      else if length bs < 4 then Inl (Wrap errTruncatedKeySize)
      else
        let sz = Uint32 (take 4 bs) in
        if sz > maxKeySize then Inl errKeySizeTooLarge
        else if length (drop 4 bs) < unat sz then Inl (Wrap errTruncatedKeyData)
        else Inr (take (unat sz) (drop 4 bs), drop (unat sz) (drop 4 bs)))"

definition readItem :: "byte list \<Rightarrow> error + Item \<times> byte list" where
  "readItem bs =
     (if length bs < 20 then Inl (Wrap errTruncatedIndexData)
      else Inr (\<lparr>FileID = uint (Uint32 (take 4 bs)),
                 ItemOffset = sint (Uint64 (take 8 (drop 4 bs))),
                 ItemSize = sint (Uint64 (take 8 (drop 12 bs)))\<rparr>, drop 20 bs))"

function readIndex :: "tree \<Rightarrow> byte list \<Rightarrow> 32 word \<Rightarrow> error + tree" where
  "readIndex tr bs maxKeySize =
     (case readKey bs maxKeySize of
        Inl err \<Rightarrow> (if err = EOF then Inr tr else Inl err)
      | Inr (key, rest) \<Rightarrow>
          (case readItem rest of
             Inl err \<Rightarrow> Inl err
           | Inr (item, rest') \<Rightarrow> readIndex (Insert key item tr) rest' maxKeySize))"
  by pat_completeness auto
termination
  by (relation "measure (\<lambda>(tr, bs, m). length bs)")
     (auto simp: readKey_def readItem_def Let_def split: if_splits)

definition Load :: "string \<Rightarrow> 32 word \<Rightarrow> disk \<Rightarrow> error + tree \<times> bool" where
  "Load fn maxKeySize s =
     (if \<not> Exists s fn then Inr (New, False)
      else (case readIndex New (content s fn) maxKeySize of
              Inl err \<Rightarrow> Inl err
            | Inr tr \<Rightarrow> Inr (tr, True)))"

definition Save :: "tree \<Rightarrow> string \<Rightarrow> disk \<Rightarrow> error option \<times> disk" where
  "Save tr fn s = (None, s\<lparr>files := AList.update fn (writeIndex tr) (files s)\<rparr>)"

section \<open>The engine\<close>

record Bitcask =
  b_cfg :: Config
  b_path :: string
  b_curr :: datafile
  b_datafiles :: "(int \<times> datafile) list"
  b_t :: tree

text \<open>\<open>loadDatafiles\<close>: every id \<open>ParseIds\<close> returned is opened read-only, in order.\<close>

fun open_each ::
  "string \<Rightarrow> 32 word \<Rightarrow> 64 word \<Rightarrow> int list \<Rightarrow> (int \<times> datafile) list \<Rightarrow> disk
   \<Rightarrow> (error + (int \<times> datafile) list) \<times> disk" where
  "open_each path mk mv [] dfs s = (Inr dfs, s)"
| "open_each path mk mv (i # ids) dfs s =
     (case NewDatafile path i True mk mv s of
        (Inl err, s') \<Rightarrow> (Inl err, s')
      | (Inr file, s') \<Rightarrow> open_each path mk mv ids (AList.update i file dfs) s')"

definition loadDatafiles ::
  "string \<Rightarrow> 32 word \<Rightarrow> 64 word \<Rightarrow> disk \<Rightarrow> (error + (int \<times> datafile) list \<times> int) \<times> disk" where
  "loadDatafiles path maxKeySize maxValueSize s =
     (case ParseIds (GetDatafiles path s) of
        Inl err \<Rightarrow> (Inl err, s)
      | Inr ids \<Rightarrow>
          (case open_each path maxKeySize maxValueSize ids [] s of
             (Inl err, s') \<Rightarrow> (Inl err, s')
           | (Inr dfs, s') \<Rightarrow> (Inr (dfs, if length ids > 0 then last ids else 0), s')))"

definition getSortedDatafiles :: "(int \<times> datafile) list \<Rightarrow> datafile list" where
  "getSortedDatafiles dfs = sort_key FileID_of (map snd dfs)"

text \<open>
  The loop of \<open>loadIndex\<close> over the sorted segments: one \<open>Read\<close> from each, \<open>offset\<close>
  running on from one segment to the next, \<open>io.EOF\<close> leaving the loop. The segments are
  returned as the reads left them.
\<close>

fun scan_each ::
  "datafile list \<Rightarrow> disk \<Rightarrow> tree \<Rightarrow> int \<Rightarrow> (error + tree) \<times> datafile list" where
  "scan_each [] s tr off = (Inr tr, [])"
| "scan_each (f # fs) s tr off =
     (case Read f s of
        (Inl err, f') \<Rightarrow> (if err = EOF then Inr tr else Inl err, f' # fs)
      | (Inr (e, n), f') \<Rightarrow>
          (let tr' = (if length (Value e) = 0 then Delete_key (Key e) tr
                      else Insert (Key e) \<lparr>FileID = FileID_of f', ItemOffset = off, ItemSize = n\<rparr> tr)
           in case scan_each fs s tr' (off + n) of (res, fs') \<Rightarrow> (res, f' # fs')))"

definition loadIndex ::
  "string \<Rightarrow> 32 word \<Rightarrow> (int \<times> datafile) list \<Rightarrow> disk \<Rightarrow> error + tree \<times> (int \<times> datafile) list" where
  "loadIndex path maxKeySize dfs s =
     (case Load (Join path ''index'') maxKeySize s of
        Inl err \<Rightarrow> Inl err
      | Inr (tr, found) \<Rightarrow>
          if \<not> found then
            (case scan_each (getSortedDatafiles dfs) s tr 0 of
               (Inl err, _) \<Rightarrow> Inl err
             | (Inr tr', fs') \<Rightarrow> Inr (tr', map (\<lambda>f. (FileID_of f, f)) fs'))
          else Inr (tr, dfs))"

text \<open>
  \<open>Open\<close> creates the directory, settles the configuration and calls \<open>reopen\<close>; the
  configuration it settles on is the parameter \<open>cfg\<close> here.
\<close>

definition reopen :: "string \<Rightarrow> Config \<Rightarrow> disk \<Rightarrow> (error + Bitcask) \<times> disk" where
  "reopen path cfg s =
     (case loadDatafiles path (MaxKeySize cfg) (MaxValueSize cfg) s of
        (Inl err, s1) \<Rightarrow> (Inl err, s1)
      | (Inr (dfs, lastID), s1) \<Rightarrow>
          (case loadIndex path (MaxKeySize cfg) dfs s1 of
             Inl err \<Rightarrow> (Inl err, s1)
           | Inr (tr, dfs') \<Rightarrow>
               (case NewDatafile path lastID False (MaxKeySize cfg) (MaxValueSize cfg) s1 of
                  (Inl err, s2) \<Rightarrow> (Inl err, s2)
                | (Inr c, s2) \<Rightarrow>
                    (Inr \<lparr>b_cfg = cfg, b_path = path, b_curr = c, b_datafiles = dfs', b_t = tr\<rparr>,
                     s2))))"

definition Open :: "string \<Rightarrow> Config \<Rightarrow> disk \<Rightarrow> (error + Bitcask) \<times> disk" where
  "Open path cfg s = reopen path cfg s"

text \<open>The unexported \<open>put\<close>: roll the segment over when it has grown past the limit, then write.\<close>

definition put ::
  "Bitcask \<Rightarrow> disk \<Rightarrow> byte list \<Rightarrow> byte list \<Rightarrow> (error + int \<times> int) \<times> Bitcask \<times> disk" where
  "put b s key val =
     (let rolled =
        (if Size (b_curr b) > MaxDatafileSize (b_cfg b) then
           (case Close_df (b_curr b) s of
              (_, c0, s0) \<Rightarrow>
                (let b0 = b\<lparr>b_curr := c0\<rparr>; i = FileID_of c0 in
                 case NewDatafile (b_path b) i True (MaxKeySize (b_cfg b)) (MaxValueSize (b_cfg b)) s0 of
                   (Inl err, s1) \<Rightarrow> (Some err, b0, s1)
                 | (Inr df, s1) \<Rightarrow>
                     (let b1 = b0\<lparr>b_datafiles := AList.update i df (b_datafiles b0)\<rparr> in
                      case NewDatafile (b_path b) (wrap64 (i + 1)) False
                             (MaxKeySize (b_cfg b)) (MaxValueSize (b_cfg b)) s1 of
                        (Inl err, s2) \<Rightarrow> (Some err, b1, s2)
                      | (Inr df', s2) \<Rightarrow> (None, b1\<lparr>b_curr := df'\<rparr>, s2))))
         else (None, b, s))
      in case rolled of
           (Some err, b', s') \<Rightarrow> (Inl err, b', s')
         | (None, b', s') \<Rightarrow>
             (case Write (b_curr b') (NewEntry key val) s' of
                (res, c', s'') \<Rightarrow> (res, b'\<lparr>b_curr := c'\<rparr>, s'')))"

definition Put :: "Bitcask \<Rightarrow> disk \<Rightarrow> byte list \<Rightarrow> byte list \<Rightarrow> error option \<times> Bitcask \<times> disk" where
  "Put b s key val =
     (if (of_nat (length key) :: 32 word) > MaxKeySize (b_cfg b) then (Some ErrKeyTooLarge, b, s)
      else if (of_nat (length val) :: 64 word) > MaxValueSize (b_cfg b)
        then (Some ErrValueTooLarge, b, s)
      else
        (case put b s key val of
           (Inl err, b', s') \<Rightarrow> (Some err, b', s')
         | (Inr (off, n), b', s') \<Rightarrow>
             (None,
              b'\<lparr>b_t := Insert key \<lparr>FileID = FileID_of (b_curr b'), ItemOffset = off, ItemSize = n\<rparr>
                          (b_t b')\<rparr>,
              s')))"

text \<open>
  \<open>Get\<close>. A file id the map of frozen segments does not hold yields a nil \<open>DataFile\<close>,
  and the call of \<open>ReadAt\<close> on it panics.
\<close>

definition Get :: "Bitcask \<Rightarrow> disk \<Rightarrow> byte list \<Rightarrow> error + byte list" where
  "Get b s key =
     (case Search (b_t b) key of
        None \<Rightarrow> Inl ErrKeyNotFound
      | Some item \<Rightarrow>
          (case (if FileID item = FileID_of (b_curr b) then Some (b_curr b)
                 else map_of (b_datafiles b) (FileID item)) of
             None \<Rightarrow> Inl Panic
           | Some df \<Rightarrow>
               (case ReadAt df s (ItemOffset item) (ItemSize item) of
                  Inl err \<Rightarrow> Inl err
                | Inr e \<Rightarrow>
                    if ChecksumIEEE (Value e) \<noteq> Checksum e then Inl ErrChecksumFailed
                    else Inr (Value e))))"

definition Has :: "Bitcask \<Rightarrow> byte list \<Rightarrow> bool" where
  "Has b key = (Search (b_t b) key \<noteq> None)"

definition Delete :: "Bitcask \<Rightarrow> disk \<Rightarrow> byte list \<Rightarrow> error option \<times> Bitcask \<times> disk" where
  "Delete b s key =
     (case put b s key [] of
        (Inl err, b', s') \<Rightarrow> (Some err, b', s')
      | (Inr _, b', s') \<Rightarrow> (None, b'\<lparr>b_t := Delete_key key (b_t b')\<rparr>, s'))"

text \<open>The traversal of \<open>DeleteAll\<close>: the callback stops it at the first failed \<open>put\<close>.\<close>

fun delete_each ::
  "byte list list \<Rightarrow> Bitcask \<Rightarrow> disk \<Rightarrow> error option \<times> Bitcask \<times> disk" where
  "delete_each [] b s = (None, b, s)"
| "delete_each (k # ks) b s =
     (case put b s k [] of
        (Inl err, b', s') \<Rightarrow> (Some err, b', s')
      | (Inr _, b', s') \<Rightarrow> delete_each ks b' s')"

definition DeleteAll :: "Bitcask \<Rightarrow> disk \<Rightarrow> error option \<times> Bitcask \<times> disk" where
  "DeleteAll b s =
     (case delete_each (map fst (ForEach (b_t b))) b s of
        (err, b', s') \<Rightarrow> (err, b'\<lparr>b_t := New\<rparr>, s'))"

definition Len :: "Bitcask \<Rightarrow> nat" where
  "Len b = length (b_t b)"

definition Sync_db :: "Bitcask \<Rightarrow> disk \<Rightarrow> error option \<times> disk" where
  "Sync_db b s = Sync_df (b_curr b) s"

text \<open>\<open>Close\<close>: the snapshot, then every frozen segment, then the active one.\<close>

fun close_each ::
  "(int \<times> datafile) list \<Rightarrow> disk \<Rightarrow> error option \<times> (int \<times> datafile) list \<times> disk" where
  "close_each [] s = (None, [], s)"
| "close_each ((i, f) # dfs) s =
     (case Close_df f s of
        (Some err, f', s') \<Rightarrow> (Some err, (i, f') # dfs, s')
      | (None, f', s') \<Rightarrow>
          (case close_each dfs s' of (res, dfs', s'') \<Rightarrow> (res, (i, f') # dfs', s'')))"

definition Close :: "Bitcask \<Rightarrow> disk \<Rightarrow> error option \<times> Bitcask \<times> disk" where
  "Close b s =
     (case Save (b_t b) (Join (b_path b) ''index'') s of
        (Some err, s1) \<Rightarrow> (Some err, b, s1)
      | (None, s1) \<Rightarrow>
          (case close_each (b_datafiles b) s1 of
             (Some err, dfs', s2) \<Rightarrow> (Some err, b\<lparr>b_datafiles := dfs'\<rparr>, s2)
           | (None, dfs', s2) \<Rightarrow>
               (case Close_df (b_curr b) s2 of
                  (res, c', s3) \<Rightarrow> (res, b\<lparr>b_datafiles := dfs', b_curr := c'\<rparr>, s3))))"

section \<open>Notions the properties are stated with\<close>

text \<open>
  Exactly \<open>sz\<close> bytes can be read from the segment at \<open>off\<close>, and they are \<open>buf\<close>: the
  positioned read \<open>ReadAt\<close> makes (on the map of a frozen segment, on the file of the
  active one) succeeds.
\<close>

definition readable :: "datafile \<Rightarrow> disk \<Rightarrow> int \<Rightarrow> int \<Rightarrow> byte list \<Rightarrow> bool" where
  "readable d s off sz buf \<longleftrightarrow>
     0 \<le> sz \<and> \<not> df_closed d \<and>
     (if \<not> df_w d then mmap_ReadAt (df_ra d) off (nat sz)
      else file_ReadAt (content s (df_name d)) off (nat sz)) = Inr buf"

text \<open>
  The active segment is in step with its file and with the configuration: its logical
  offset is the length of the file, and its codec has the configured limits. \<open>NewDatafile\<close>
  makes it so, and a completed write keeps it so.
\<close>

definition active_consistent :: "Bitcask \<Rightarrow> disk \<Rightarrow> bool" where
  "active_consistent b s \<longleftrightarrow>
     df_offset (b_curr b) = int (length (content s (df_name (b_curr b))))
     \<and> df_maxKeySize (b_curr b) = MaxKeySize (b_cfg b)
     \<and> df_maxValueSize (b_curr b) = MaxValueSize (b_cfg b)"

text \<open>
  The active segment is open for writing on the file named by its id, that file exists,
  and its buffered writer has met no error: the state \<open>NewDatafile\<close> leaves a segment
  opened for writing in, and a completed write keeps it in.
\<close>

definition active_open :: "Bitcask \<Rightarrow> disk \<Rightarrow> bool" where
  "active_open b s \<longleftrightarrow>
     df_w (b_curr b) \<and> \<not> df_closed (b_curr b) \<and> \<not> df_werr (b_curr b)
     \<and> df_name (b_curr b) = Join (b_path b) (defaultDatafileFilename (df_id (b_curr b)))
     \<and> Exists s (df_name (b_curr b))"

section \<open>Example states\<close>

definition cfg_ex :: Config where
  "cfg_ex = \<lparr>MaxDatafileSize = 1048576, MaxKeySize = 64, MaxValueSize = 65536, Sync = True\<rparr>"

definition disk_empty :: disk where
  "disk_empty = \<lparr>files = [], faults = [], trace = []\<rparr>"

text \<open>A frozen segment whose mapped bytes are sixteen zeros: a record with \<open>key_len = 0\<close>.\<close>

definition df_zeros :: datafile where
  "df_zeros = \<lparr>df_name = ''/tmp/db/000000000.data'', df_r = 0,
               df_ra = [0, 0, 0, 0, 0, 0, 0, 0, 0, 0, 0, 0, 0, 0, 0, 0],
               df_w = False, df_id = 0, df_offset = 16,
               df_maxKeySize = 64, df_maxValueSize = 65536,
               df_closed = False, df_werr = False\<rparr>"

text \<open>The engine as \<open>Open\<close> returns it on an empty directory, and the directory then.\<close>

definition s_fresh :: disk where
  "s_fresh = \<lparr>files = [(''/tmp/db/000000000.data'', [])], faults = [],
              trace = [EvOpen ''/tmp/db/000000000.data'' False]\<rparr>"

definition b_fresh :: Bitcask where
  "b_fresh = \<lparr>b_cfg = cfg_ex, b_path = ''/tmp/db'',
              b_curr = \<lparr>df_name = ''/tmp/db/000000000.data'', df_r = 0, df_ra = [],
                         df_w = True, df_id = 0, df_offset = 0,
                         df_maxKeySize = 64, df_maxValueSize = 65536,
                         df_closed = False, df_werr = False\<rparr>,
              b_datafiles = [], b_t = []\<rparr>"

text \<open>
  An engine with \<open>max_datafile_size = 16\<close> whose active segment holds one record of
  eighteen bytes, and its directory.
\<close>

definition s_full :: disk where
  "s_full = \<lparr>files = [(''/tmp/db/000000000.data'', EncodeBytes (NewEntry [0x68] [0x77]))],
             faults = [], trace = []\<rparr>"

definition b_full :: Bitcask where
  "b_full = \<lparr>b_cfg = cfg_ex\<lparr>MaxDatafileSize := 16\<rparr>, b_path = ''/tmp/db'',
             b_curr = \<lparr>df_name = ''/tmp/db/000000000.data'', df_r = 0, df_ra = [],
                        df_w = True, df_id = 0, df_offset = 18,
                        df_maxKeySize = 64, df_maxValueSize = 65536,
                        df_closed = False, df_werr = False\<rparr>,
             b_datafiles = [], b_t = [([0x68], \<lparr>FileID = 0, ItemOffset = 0, ItemSize = 18\<rparr>)]\<rparr>"

text \<open>
  The engine-state invariant on segment ids: as the spec states it (strictly greater),
  and as the code keeps it (greater or equal).
\<close>

definition frozen_le_active :: "Bitcask \<Rightarrow> bool" where
  "frozen_le_active b \<longleftrightarrow> (\<forall>i \<in> fst ` set (b_datafiles b). i \<le> FileID_of (b_curr b))"

definition frozen_lt_active :: "Bitcask \<Rightarrow> bool" where
  "frozen_lt_active b \<longleftrightarrow> (\<forall>i \<in> fst ` set (b_datafiles b). i < FileID_of (b_curr b))"

text \<open>The id \<open>ParseIds\<close> reads from one file name.\<close>

definition parsed_id :: "string \<Rightarrow> error + int" where
  "parsed_id fn = ParseInt (TrimSuffix (Base fn) (Ext fn))"

text \<open>A directory that holds segment \<open>1\<close> and no segment \<open>0\<close>.\<close>

definition s_only1 :: disk where
  "s_only1 = \<lparr>files = [(''/tmp/db/000000001.data'', [])], faults = [], trace = []\<rparr>"

text \<open>
  The scenario of two puts: the records of \<open>put("a", "1")\<close> and \<open>put("b", "2")\<close>, segment
  \<open>0\<close> of \<open>/tmp/db\<close> as \<open>NewDatafile\<close> opens it on given bytes, and the engine and the
  directory after each step.
\<close>

definition rec_a :: "byte list" where
  "rec_a = EncodeBytes (NewEntry [0x61] [0x31])"

definition rec_b :: "byte list" where
  "rec_b = EncodeBytes (NewEntry [0x62] [0x32])"

definition seg0 :: "byte list \<Rightarrow> bool \<Rightarrow> nat \<Rightarrow> Config \<Rightarrow> datafile" where
  "seg0 bytes writable pos cfg =
     \<lparr>df_name = ''/tmp/db/000000000.data'', df_r = pos, df_ra = bytes, df_w = writable,
      df_id = 0, df_offset = int (length bytes),
      df_maxKeySize = MaxKeySize cfg, df_maxValueSize = MaxValueSize cfg,
      df_closed = False, df_werr = False\<rparr>"

definition s_one :: disk where
  "s_one = \<lparr>files = [(''/tmp/db/000000000.data'', rec_a)], faults = [],
            trace = [EvOpen ''/tmp/db/000000000.data'' False,
                     EvAppend ''/tmp/db/000000000.data'' rec_a]\<rparr>"

definition b_one :: Bitcask where
  "b_one = b_fresh\<lparr>b_curr := (b_curr b_fresh)\<lparr>df_offset := 18\<rparr>,
                    b_t := [([0x61], \<lparr>FileID = 0, ItemOffset = 0, ItemSize = 18\<rparr>)]\<rparr>"

definition s_two :: disk where
  "s_two = \<lparr>files = [(''/tmp/db/000000000.data'', rec_a @ rec_b)], faults = [],
            trace = [EvOpen ''/tmp/db/000000000.data'' False,
                     EvAppend ''/tmp/db/000000000.data'' rec_a,
                     EvAppend ''/tmp/db/000000000.data'' rec_b]\<rparr>"

definition b_two :: Bitcask where
  "b_two = b_fresh\<lparr>b_curr := (b_curr b_fresh)\<lparr>df_offset := 36\<rparr>,
                    b_t := [([0x61], \<lparr>FileID = 0, ItemOffset = 0, ItemSize = 18\<rparr>),
                            ([0x62], \<lparr>FileID = 0, ItemOffset = 18, ItemSize = 18\<rparr>)]\<rparr>"

text \<open>
  Close the engine, delete the snapshot file \<open>index\<close>, and open the directory again.
\<close>

definition close_replay :: "Bitcask \<Rightarrow> disk \<Rightarrow> (error + Bitcask) \<times> disk" where
  "close_replay b s =
     (case Close b s of
        (_, _, s1) \<Rightarrow>
          Open (b_path b) (b_cfg b)
            (s1\<lparr>files := AList.delete (Join (b_path b) ''index'') (files s1)\<rparr>))"

text \<open>The engine that replay builds from the segment holding the two records.\<close>

definition b_replayed :: Bitcask where
  "b_replayed = \<lparr>b_cfg = cfg_ex, b_path = ''/tmp/db'',
                 b_curr = seg0 (rec_a @ rec_b) True 0 cfg_ex,
                 b_datafiles = [(0, seg0 (rec_a @ rec_b) False 18 cfg_ex)],
                 b_t = [([0x61], \<lparr>FileID = 0, ItemOffset = 0, ItemSize = 18\<rparr>)]\<rparr>"

text \<open>The record, the directory and the engine after \<open>put("", "1")\<close> on a new database.\<close>

definition rec_empty_key :: "byte list" where
  "rec_empty_key = EncodeBytes (NewEntry [] [0x31])"

definition s_empty_key :: disk where
  "s_empty_key = \<lparr>files = [(''/tmp/db/000000000.data'', rec_empty_key)], faults = [],
                  trace = [EvOpen ''/tmp/db/000000000.data'' False,
                           EvAppend ''/tmp/db/000000000.data'' rec_empty_key]\<rparr>"

definition b_empty_key :: Bitcask where
  "b_empty_key = b_fresh\<lparr>b_curr := (b_curr b_fresh)\<lparr>df_offset := 17\<rparr>,
                          b_t := [([], \<lparr>FileID = 0, ItemOffset = 0, ItemSize = 17\<rparr>)]\<rparr>"

text \<open>The engine \<open>Open\<close> returns on a directory that holds the empty segment \<open>0\<close>.\<close>

definition b_again :: Bitcask where
  "b_again = \<lparr>b_cfg = cfg_ex, b_path = ''/tmp/db'',
              b_curr = seg0 [] True 0 cfg_ex,
              b_datafiles = [(0, seg0 [] False 0 cfg_ex)],
              b_t = []\<rparr>"

text \<open>A character that is neither a path separator, a dot nor a sign.\<close>

definition plain :: "char \<Rightarrow> bool" where
  "plain c \<longleftrightarrow> c \<noteq> CHR ''/'' \<and> c \<noteq> CHR ''.'' \<and> c \<noteq> CHR ''+'' \<and> c \<noteq> CHR ''-''"

section \<open>Big-endian integers and the record codec\<close>

declare digits.simps [simp del]
declare readIndex.simps [simp del]

lemma length_PutUint32 [simp]: "length (PutUint32 v) = 4"
  by (simp add: PutUint32_def)

lemma length_PutUint64 [simp]: "length (PutUint64 v) = 8"
  by (simp add: PutUint64_def)

lemma Uint32_PutUint32_append: "Uint32 (PutUint32 v @ rest) = v"
proof (rule bit_word_eqI)
  fix n assume n: "n < LENGTH(32)"
  consider "n < 8" | "8 \<le> n \<and> n < 16" | "16 \<le> n \<and> n < 24" | "24 \<le> n \<and> n < 32"
    using n by fastforce
  then show "bit (Uint32 (PutUint32 v @ rest)) n = bit v n"
    by cases (auto simp add: Uint32_def PutUint32_def bit_simps)
qed

lemma Uint64_PutUint64_append: "Uint64 (PutUint64 v @ rest) = v"
proof (rule bit_word_eqI)
  fix n assume n: "n < LENGTH(64)"
  consider "n < 8" | "8 \<le> n \<and> n < 16" | "16 \<le> n \<and> n < 24" | "24 \<le> n \<and> n < 32"
    | "32 \<le> n \<and> n < 40" | "40 \<le> n \<and> n < 48" | "48 \<le> n \<and> n < 56" | "56 \<le> n \<and> n < 64"
    using n by fastforce
  then show "bit (Uint64 (PutUint64 v @ rest)) n = bit v n"
    by cases (auto simp add: Uint64_def PutUint64_def bit_simps)
qed

lemma Uint32_PutUint32 [simp]: "Uint32 (PutUint32 v) = v"
  using Uint32_PutUint32_append [of v "[]"] by simp

lemma EncodeBytes_Offset [simp]: "EncodeBytes (e\<lparr>Offset := x\<rparr>) = EncodeBytes e"
  by (simp add: EncodeBytes_def)

lemma EncodeLen_Offset [simp]: "EncodeLen (e\<lparr>Offset := x\<rparr>) = EncodeLen e"
  by (simp add: EncodeLen_def)

lemma length_EncodeBytes: "length (EncodeBytes e) = 16 + length (Key e) + length (Value e)"
  by (simp add: EncodeBytes_def)

lemma EncodeLen_length: "EncodeLen e = int (length (EncodeBytes e))"
  by (simp add: EncodeLen_def length_EncodeBytes keySize_def valueSize_def checksumSize_def)

lemma unat_of_nat32: "n \<le> unat (m :: 32 word) \<Longrightarrow> unat (of_nat n :: 32 word) = n"
  by (metis le_unat_uoi)

lemma unat_of_nat64: "n \<le> unat (m :: 64 word) \<Longrightarrow> unat (of_nat n :: 64 word) = n"
  by (metis le_unat_uoi)

lemma getKeyValueSizes_EncodeBytes:
  assumes "0 < length (Key e)" "length (Key e) \<le> unat mk" "length (Value e) \<le> unat mv"
  shows "getKeyValueSizes (EncodeBytes e) mk mv
           = Inr (of_nat (length (Key e)), of_nat (length (Value e)))"
proof -
  have k: "unat (of_nat (length (Key e)) :: 32 word) = length (Key e)"
    using assms(2) by (rule unat_of_nat32)
  have v: "unat (of_nat (length (Value e)) :: 64 word) = length (Value e)"
    using assms(3) by (rule unat_of_nat64)
  have 1: "Uint32 (take keySize (EncodeBytes e)) = of_nat (length (Key e))"
    by (simp add: EncodeBytes_def keySize_def)
  have 2: "Uint64 (drop keySize (EncodeBytes e)) = of_nat (length (Value e))"
    by (simp add: EncodeBytes_def keySize_def Uint64_PutUint64_append)
  have 3: "\<not> (of_nat (length (Key e)) :: 32 word) > mk"
    using assms(2) k by (simp add: word_less_nat_alt)
  have 4: "\<not> (of_nat (length (Value e)) :: 64 word) > mv"
    using assms(3) v by (simp add: word_less_nat_alt)
  have 5: "(of_nat (length (Key e)) :: 32 word) \<noteq> 0"
    using assms(1) k by (metis less_numeral_extra(3) unat_0)
  show ?thesis
    unfolding getKeyValueSizes_def 1 2 Let_def using 3 4 5
    by (simp add: length_EncodeBytes keySize_def valueSize_def)
qed

lemma DecodeEntry_EncodeBytes:
  assumes "0 < length (Key e)" "length (Key e) \<le> unat mk" "length (Value e) \<le> unat mv"
  shows "DecodeEntry (EncodeBytes e) e0 mk mv
           = Inr (e0\<lparr>Key := Key e, Value := Value e, Checksum := Checksum e\<rparr>)"
proof -
  have k: "unat (of_nat (length (Key e)) :: 32 word) = length (Key e)"
    using assms(2) by (rule unat_of_nat32)
  have d: "drop (keySize + valueSize) (EncodeBytes e) = Key e @ Value e @ PutUint32 (Checksum e)"
    by (simp add: EncodeBytes_def keySize_def valueSize_def)
  show ?thesis
    unfolding DecodeEntry_def getKeyValueSizes_EncodeBytes [OF assms] d
    by (simp add: decodeWithoutPrefix_def k checksumSize_def)
qed

section \<open>The positioned read\<close>

lemma readable_length: "readable d s off sz buf \<Longrightarrow> int (length buf) = sz"
  by (auto simp: readable_def mmap_ReadAt_def file_ReadAt_def split: if_splits)

lemma DecodeEntry_invalid:
  assumes "12 \<le> length buf"
    and "Uint32 (take 4 buf) = 0 \<or> Uint32 (take 4 buf) > mk \<or> Uint64 (drop 4 buf) > mv"
  shows "DecodeEntry buf e mk mv = Inl (Wrap errInvalidKeyOrValueSize)"
  using assms by (auto simp: DecodeEntry_def getKeyValueSizes_def keySize_def valueSize_def Let_def)

text \<open>
  C10. \<open>ReadAt\<close> drops the error of \<open>DecodeEntry\<close>: when the \<open>sz\<close> bytes at \<open>off\<close> can be
  read and their twelve-byte prefix is not that of a valid record (\<open>key_len = 0\<close>,
  \<open>key_len > max_key_size\<close> or \<open>value_len > max_value_size\<close>), \<open>DecodeEntry\<close> returns its
  invalid-size error and \<open>ReadAt\<close> all the same returns a nil error, with the entry
  whose fields are all zero. The three conditions are conditions on the length prefix,
  so the buffer holds one: on fewer than twelve bytes \<open>getKeyValueSizes\<close> panics.
\<close>

theorem ReadAt_discards_decode_error:
  assumes "readable d s off sz buf"
    and "12 \<le> sz"
    and "Uint32 (take 4 buf) = 0 \<or> Uint32 (take 4 buf) > df_maxKeySize d
         \<or> Uint64 (drop 4 buf) > df_maxValueSize d"
  shows "DecodeEntry buf zeroEntry (df_maxKeySize d) (df_maxValueSize d)
           = Inl (Wrap errInvalidKeyOrValueSize)
         \<and> ReadAt d s off sz = Inr zeroEntry"
proof -
  have len: "int (length buf) = sz"
    using assms(1) by (rule readable_length)
  then have "12 \<le> length buf"
    using assms(2) by simp
  then have dec: "DecodeEntry buf zeroEntry (df_maxKeySize d) (df_maxValueSize d)
                    = Inl (Wrap errInvalidKeyOrValueSize)"
    using assms(3) by (rule DecodeEntry_invalid)
  have "ReadAt d s off sz = Inr zeroEntry"
    using assms(1) len by (simp add: ReadAt_def readable_def dec)
  with dec show ?thesis by simp
qed

theorem ReadAt_discards_decode_error_witness:
  "readable df_zeros disk_empty 0 16 [0, 0, 0, 0, 0, 0, 0, 0, 0, 0, 0, 0, 0, 0, 0, 0]
   \<and> Uint32 (take 4 [0, 0, 0, 0, 0, 0, 0, 0, 0, 0, 0, 0, 0, 0, 0, 0]) = 0
   \<and> ReadAt df_zeros disk_empty 0 16 = Inr zeroEntry"
proof -
  have r: "readable df_zeros disk_empty 0 16 [0, 0, 0, 0, 0, 0, 0, 0, 0, 0, 0, 0, 0, 0, 0, 0]"
    by (simp add: readable_def df_zeros_def mmap_ReadAt_def)
  have z: "Uint32 (take 4 [0, 0, 0, 0, 0, 0, 0, 0, 0, 0, 0, 0, 0, 0, 0, 0]) = 0"
    by (simp add: Uint32_def)
  show ?thesis
    using r z ReadAt_discards_decode_error [OF r] by simp
qed

section \<open>The disk and the segment operations\<close>

lemma content_emit [simp]: "content (emit ev s) fn = content s fn"
  by (simp add: content_def emit_def)

lemma Exists_emit [simp]: "Exists (emit ev s) fn = Exists s fn"
  by (simp add: Exists_def emit_def)

lemma faults_emit [simp]: "faults (emit ev s) = faults s"
  by (simp add: emit_def)

lemma trace_emit [simp]: "trace (emit ev s) = trace s @ [ev]"
  by (simp add: emit_def)

lemma files_emit [simp]: "files (emit ev s) = files s"
  by (simp add: emit_def)

lemma content_update:
  "content (s\<lparr>files := AList.update fn x (files s)\<rparr>) fn' = (if fn' = fn then x else content s fn')"
  by (simp add: content_def update_conv')

lemma content_create:
  "\<not> Exists s fn \<Longrightarrow> content (s\<lparr>files := files s @ [(fn, [])]\<rparr>) fn' = content s fn'"
  by (auto simp: content_def Exists_def map_add_def split: option.splits)

lemma NewDatafile_Inr:
  assumes "NewDatafile path i ro mk mv s = (Inr d, s')"
  shows "d = \<lparr>df_name = Join path (defaultDatafileFilename i), df_r = 0,
              df_ra = content s (Join path (defaultDatafileFilename i)), df_w = \<not> ro, df_id = i,
              df_offset = int (length (content s (Join path (defaultDatafileFilename i)))),
              df_maxKeySize = mk, df_maxValueSize = mv, df_closed = False, df_werr = False\<rparr>"
    and "content s' = content s"
    and "trace s' = trace s @ [EvOpen (Join path (defaultDatafileFilename i)) ro]"
    and "faults s' = faults s"
    and "Exists s' (Join path (defaultDatafileFilename i))"
  using assms
  by (auto simp: NewDatafile_def Let_def content_def emit_def Exists_def map_add_def fun_eq_iff
           split: if_splits option.splits)

lemma NewDatafile_Inl:
  assumes "NewDatafile path i ro mk mv s = (Inl err, s')"
  shows "content s' = content s"
    and "trace s' = trace s @ [EvOpen (Join path (defaultDatafileFilename i)) ro]"
    and "faults s' = faults s"
  using assms
  by (auto simp: NewDatafile_def Let_def content_def emit_def Exists_def map_add_def fun_eq_iff
           split: if_splits option.splits)

lemma NewDatafile_rw:
  "\<exists>d s'. NewDatafile path i False mk mv s = (Inr d, s')"
  by (auto simp: NewDatafile_def Let_def Exists_def emit_def map_add_def split: option.splits)

lemma Write_Inr:
  assumes "Write d e s = (Inr (off, n), d', s')"
  shows "df_w d" "\<not> df_closed d" "\<not> df_werr d"
    and "off = df_offset d"
    and "n = int (length (EncodeBytes e))"
    and "d' = d\<lparr>df_offset := df_offset d + n\<rparr>"
    and "content s' = (content s)(df_name d := content s (df_name d) @ EncodeBytes e)"
    and "trace s' = trace s @ [EvAppend (df_name d) (EncodeBytes e)]"
    and "faults s' = tl (faults s)"
  using assms
  by (auto simp: Write_def Encode_def Let_def EncodeLen_length content_def update_conv' fun_eq_iff
           split: if_splits list.splits bool.splits)

lemma Write_Inl:
  assumes "Write d e s = (Inl err, d', s')"
  shows "content s' = content s" "trace s' = trace s"
    and "df_id d' = df_id d" "df_name d' = df_name d"
  using assms
  by (auto simp: Write_def Encode_def Let_def content_def
           split: if_splits list.splits bool.splits)

lemma Close_df_facts:
  assumes "Close_df d s = (r, d', s')"
  shows "content s' = content s" "faults s' = faults s"
    and "df_id d' = df_id d" "df_name d' = df_name d"
    and "\<exists>evs. trace s' = trace s @ evs \<and> set evs \<subseteq> {EvFsync (df_name d), EvClose (df_name d)}"
  using assms
  by (auto simp: Close_df_def Sync_df_def fun_eq_iff split: if_splits)

lemma Close_df_open:
  assumes "df_w d" "\<not> df_closed d"
  shows "Close_df d s = (None, d\<lparr>df_closed := True\<rparr>,
           emit (EvClose (df_name d)) (emit (EvFsync (df_name d)) s))"
  using assms by (simp add: Close_df_def Sync_df_def)

section \<open>The internal put\<close>

lemma put_keep:
  assumes "\<not> Size (b_curr b) > MaxDatafileSize (b_cfg b)"
  shows "put b s key val =
           (case Write (b_curr b) (NewEntry key val) s of
              (res, c', s'') \<Rightarrow> (res, b\<lparr>b_curr := c'\<rparr>, s''))"
  using assms by (simp add: put_def)

lemma put_roll:
  assumes "Size (b_curr b) > MaxDatafileSize (b_cfg b)"
  shows "put b s key val =
     (case Close_df (b_curr b) s of
        (r0, c0, s0) \<Rightarrow>
          (case NewDatafile (b_path b) (df_id c0) True (MaxKeySize (b_cfg b)) (MaxValueSize (b_cfg b)) s0 of
             (Inl err, s1) \<Rightarrow> (Inl err, b\<lparr>b_curr := c0\<rparr>, s1)
           | (Inr df, s1) \<Rightarrow>
               (case NewDatafile (b_path b) (wrap64 (df_id c0 + 1)) False
                       (MaxKeySize (b_cfg b)) (MaxValueSize (b_cfg b)) s1 of
                  (Inl err, s2) \<Rightarrow>
                    (Inl err, b\<lparr>b_curr := c0, b_datafiles := AList.update (df_id c0) df (b_datafiles b)\<rparr>, s2)
                | (Inr df', s2) \<Rightarrow>
                    (case Write df' (NewEntry key val) s2 of
                       (res, c', s'') \<Rightarrow>
                         (res, b\<lparr>b_curr := c', b_datafiles := AList.update (df_id c0) df (b_datafiles b)\<rparr>,
                          s'')))))"
  using assms
  by (simp add: put_def Let_def FileID_of_def split: prod.splits sum.splits)

lemma wrap64_id: "- (2 ^ 63) \<le> x \<Longrightarrow> x < 2 ^ 63 \<Longrightarrow> wrap64 x = x"
  by (simp add: wrap64_def)

text \<open>What a completed internal put has done, without and with a rollover.\<close>

lemma put_keep_Inr:
  assumes "put b s key val = (Inr (off, n), b', s')"
    and "\<not> Size (b_curr b) > MaxDatafileSize (b_cfg b)"
  shows "b' = b\<lparr>b_curr := (b_curr b)\<lparr>df_offset := df_offset (b_curr b) + n\<rparr>\<rparr>"
    and "off = df_offset (b_curr b)"
    and "n = int (length (EncodeBytes (NewEntry key val)))"
    and "trace s' = trace s @ [EvAppend (df_name (b_curr b)) (EncodeBytes (NewEntry key val))]"
    and "content s' = (content s)(df_name (b_curr b) :=
                         content s (df_name (b_curr b)) @ EncodeBytes (NewEntry key val))"
    and "df_w (b_curr b)" "\<not> df_closed (b_curr b)"
proof -
  obtain c' where w: "Write (b_curr b) (NewEntry key val) s = (Inr (off, n), c', s')"
    and b': "b' = b\<lparr>b_curr := c'\<rparr>"
    using assms by (auto simp: put_keep split: prod.splits)
  note f = Write_Inr [OF w]
  show "b' = b\<lparr>b_curr := (b_curr b)\<lparr>df_offset := df_offset (b_curr b) + n\<rparr>\<rparr>"
    using b' f(6) by simp
  show "off = df_offset (b_curr b)" by (rule f(4))
  show "n = int (length (EncodeBytes (NewEntry key val)))" by (rule f(5))
  show "trace s' = trace s @ [EvAppend (df_name (b_curr b)) (EncodeBytes (NewEntry key val))]"
    by (rule f(8))
  show "content s' = (content s)(df_name (b_curr b) :=
                         content s (df_name (b_curr b)) @ EncodeBytes (NewEntry key val))"
    by (rule f(7))
  show "df_w (b_curr b)" "\<not> df_closed (b_curr b)" by (rule f(1), rule f(2))
qed

lemma put_roll_Inr:
  assumes "put b s key val = (Inr (off, n), b', s')"
    and "Size (b_curr b) > MaxDatafileSize (b_cfg b)"
  defines "old \<equiv> Join (b_path b) (defaultDatafileFilename (df_id (b_curr b)))"
    and "new \<equiv> Join (b_path b) (defaultDatafileFilename (wrap64 (df_id (b_curr b) + 1)))"
    and "enc \<equiv> EncodeBytes (NewEntry key val)"
  shows "b_datafiles b' = AList.update (df_id (b_curr b))
            \<lparr>df_name = old, df_r = 0, df_ra = content s old, df_w = False,
               df_id = df_id (b_curr b), df_offset = int (length (content s old)),
               df_maxKeySize = MaxKeySize (b_cfg b), df_maxValueSize = MaxValueSize (b_cfg b),
               df_closed = False, df_werr = False\<rparr> (b_datafiles b)"
    and "b_curr b' = \<lparr>df_name = new, df_r = 0, df_ra = content s new, df_w = True,
               df_id = wrap64 (df_id (b_curr b) + 1), df_offset = int (length (content s new)) + n,
               df_maxKeySize = MaxKeySize (b_cfg b), df_maxValueSize = MaxValueSize (b_cfg b),
               df_closed = False, df_werr = False\<rparr>"
    and "b_t b' = b_t b" "b_cfg b' = b_cfg b" "b_path b' = b_path b"
    and "off = int (length (content s new))"
    and "n = int (length enc)"
    and "content s' = (content s)(new := content s new @ enc)"
    and "\<exists>evs. trace s' = trace s @ evs @ [EvOpen old True, EvOpen new False, EvAppend new enc]
               \<and> set evs \<subseteq> {EvFsync (df_name (b_curr b)), EvClose (df_name (b_curr b))}
               \<and> (df_w (b_curr b) \<and> \<not> df_closed (b_curr b)
                    \<longrightarrow> evs = [EvFsync (df_name (b_curr b)), EvClose (df_name (b_curr b))])"
proof -
  obtain r0 c0 s0 where c: "Close_df (b_curr b) s = (r0, c0, s0)"
    by (metis prod_cases3)
  note cf = Close_df_facts [OF c]
  obtain r1 s1 where n1: "NewDatafile (b_path b) (df_id c0) True (MaxKeySize (b_cfg b)) (MaxValueSize (b_cfg b)) s0 = (r1, s1)"
    by (metis surj_pair)
  obtain r2 s2 where n2: "NewDatafile (b_path b) (wrap64 (df_id c0 + 1)) False (MaxKeySize (b_cfg b)) (MaxValueSize (b_cfg b)) s1 = (r2, s2)"
    by (metis surj_pair)
  from assms(1) obtain df where r1: "r1 = Inr df"
    by (cases r1) (auto simp: put_roll [OF assms(2)] c n1)
  from assms(1) obtain df' where r2: "r2 = Inr df'"
    by (cases r2) (auto simp: put_roll [OF assms(2)] c n1 r1 n2)
  obtain c' where w: "Write df' (NewEntry key val) s2 = (Inr (off, n), c', s')"
    and b': "b' = b\<lparr>b_curr := c', b_datafiles := AList.update (df_id c0) df (b_datafiles b)\<rparr>"
    using assms(1) by (auto simp: put_roll [OF assms(2)] c n1 r1 n2 r2 split: prod.splits)
  note f1 = NewDatafile_Inr [OF n1 [unfolded r1]]
  note f2 = NewDatafile_Inr [OF n2 [unfolded r2]]
  note fw = Write_Inr [OF w]
  have id0: "df_id c0 = df_id (b_curr b)" by (rule cf(3))
  have cont: "content s2 = content s" "content s1 = content s" "content s0 = content s"
    using f1(2) f2(2) cf(1) by simp_all
  show "b_datafiles b' = AList.update (df_id (b_curr b))
            \<lparr>df_name = old, df_r = 0, df_ra = content s old, df_w = False,
               df_id = df_id (b_curr b), df_offset = int (length (content s old)),
               df_maxKeySize = MaxKeySize (b_cfg b), df_maxValueSize = MaxValueSize (b_cfg b),
               df_closed = False, df_werr = False\<rparr> (b_datafiles b)"
    using b' f1(1) id0 cont by (simp add: old_def)
  have nm: "df_name df' = new"
    using f2(1) id0 by (simp add: new_def)
  show "b_curr b' = \<lparr>df_name = new, df_r = 0, df_ra = content s new, df_w = True,
               df_id = wrap64 (df_id (b_curr b) + 1), df_offset = int (length (content s new)) + n,
               df_maxKeySize = MaxKeySize (b_cfg b), df_maxValueSize = MaxValueSize (b_cfg b),
               df_closed = False, df_werr = False\<rparr>"
    using b' fw(6) f2(1) id0 cont by (simp add: new_def)
  show "b_t b' = b_t b" "b_cfg b' = b_cfg b" "b_path b' = b_path b"
    using b' by simp_all
  show "off = int (length (content s new))"
    using fw(4) f2(1) id0 cont by (simp add: new_def)
  show "n = int (length enc)"
    using fw(5) by (simp add: enc_def)
  show "content s' = (content s)(new := content s new @ enc)"
    using fw(7) nm cont by (simp add: enc_def)
  obtain evs where evs: "trace s0 = trace s @ evs"
      "set evs \<subseteq> {EvFsync (df_name (b_curr b)), EvClose (df_name (b_curr b))}"
    using cf(5) by blast
  have tr: "trace s' = trace s @ evs @ [EvOpen old True, EvOpen new False, EvAppend new enc]"
    using fw(8) f2(3) f1(3) evs(1) nm id0 by (simp add: old_def new_def enc_def)
  have "evs = [EvFsync (df_name (b_curr b)), EvClose (df_name (b_curr b))]"
    if "df_w (b_curr b) \<and> \<not> df_closed (b_curr b)"
    using Close_df_open [of "b_curr b" s] that c evs(1) by simp
  with tr evs(2)
  show "\<exists>evs. trace s' = trace s @ evs @ [EvOpen old True, EvOpen new False, EvAppend new enc]
               \<and> set evs \<subseteq> {EvFsync (df_name (b_curr b)), EvClose (df_name (b_curr b))}
               \<and> (df_w (b_curr b) \<and> \<not> df_closed (b_curr b)
                    \<longrightarrow> evs = [EvFsync (df_name (b_curr b)), EvClose (df_name (b_curr b))])"
    by blast
qed

section \<open>Writing and reading back\<close>

lemma Search_Insert [simp]: "Search (Insert key item tr) key = Some item"
  by (simp add: Search_def Insert_def update_conv')

lemma ReadAt_written:
  assumes "df_w d" "\<not> df_closed d"
    and "content s (df_name d) = pre @ EncodeBytes e"
    and "0 < length (Key e)" "length (Key e) \<le> unat (df_maxKeySize d)"
    and "length (Value e) \<le> unat (df_maxValueSize d)"
  shows "ReadAt d s (int (length pre)) (int (length (EncodeBytes e)))
           = Inr \<lparr>Checksum = Checksum e, Key = Key e, Offset = 0, Value = Value e\<rparr>"
proof -
  have pos: "0 < length (EncodeBytes e)"
    by (simp add: length_EncodeBytes)
  have rd: "file_ReadAt (content s (df_name d)) (int (length pre)) (length (EncodeBytes e))
              = Inr (EncodeBytes e)"
    using pos by (simp add: file_ReadAt_def assms(3))
  have dec: "DecodeEntry (EncodeBytes e) zeroEntry (df_maxKeySize d) (df_maxValueSize d)
               = Inr \<lparr>Checksum = Checksum e, Key = Key e, Offset = 0, Value = Value e\<rparr>"
    using DecodeEntry_EncodeBytes [OF assms(4-6), of zeroEntry] by (simp add: zeroEntry_def)
  show ?thesis
    using assms(1,2) by (simp add: ReadAt_def rd dec)
qed

lemma Put_None:
  assumes "Put b s key val = (None, b', s')"
  obtains off n b1 where "put b s key val = (Inr (off, n), b1, s')"
    and "b' = b1\<lparr>b_t := Insert key \<lparr>FileID = FileID_of (b_curr b1), ItemOffset = off, ItemSize = n\<rparr> (b_t b1)\<rparr>"
    and "\<not> (of_nat (length key) :: 32 word) > MaxKeySize (b_cfg b)"
    and "\<not> (of_nat (length val) :: 64 word) > MaxValueSize (b_cfg b)"
  using assms
  by (auto simp: Put_def split: if_splits prod.splits sum.splits)

text \<open>What \<open>Get\<close> answers after a completed \<open>Put\<close>.\<close>

lemma Put_then_Get:
  assumes "Put b s key val = (None, b', s')"
    and "0 < length key" "length key \<le> unat (MaxKeySize (b_cfg b))"
    and "length val \<le> unat (MaxValueSize (b_cfg b))"
    and "active_consistent b s"
  shows "Get b' s' key = Inr val"
proof -
  from assms(1) obtain off n b1 where p: "put b s key val = (Inr (off, n), b1, s')"
    and b': "b' = b1\<lparr>b_t := Insert key \<lparr>FileID = FileID_of (b_curr b1), ItemOffset = off, ItemSize = n\<rparr> (b_t b1)\<rparr>"
    by (rule Put_None)
  let ?e = "NewEntry key val"
  let ?c = "b_curr b1"
  have ek: "Key ?e = key" "Value ?e = val" "Checksum ?e = ChecksumIEEE val"
    by (simp_all add: NewEntry_def)
  have facts: "df_w ?c \<and> \<not> df_closed ?c
      \<and> df_maxKeySize ?c = MaxKeySize (b_cfg b) \<and> df_maxValueSize ?c = MaxValueSize (b_cfg b)
      \<and> n = int (length (EncodeBytes ?e))
      \<and> (\<exists>pre. content s' (df_name ?c) = pre @ EncodeBytes ?e \<and> off = int (length pre))"
  proof (cases "Size (b_curr b) > MaxDatafileSize (b_cfg b)")
    case True
    note f = put_roll_Inr [OF p True]
    show ?thesis
      unfolding f(2) using f(6,7,8) by simp
  next
    case False
    note f = put_keep_Inr [OF p False]
    show ?thesis
      using f assms(5) by (simp add: active_consistent_def)
  qed
  then obtain pre where c: "content s' (df_name ?c) = pre @ EncodeBytes ?e"
    and off: "off = int (length pre)" by blast
  have "ReadAt ?c s' off n
          = Inr \<lparr>Checksum = Checksum ?e, Key = Key ?e, Offset = 0, Value = Value ?e\<rparr>"
    unfolding off
    using facts ReadAt_written [OF _ _ c, of ] assms(2,3,4) by (simp add: ek)
  then show ?thesis
    unfolding b' by (simp add: Get_def ek)
qed

lemma Put_active_consistent:
  assumes "Put b s key val = (None, b', s')" and "active_consistent b s"
  shows "active_consistent b' s'"
proof -
  from assms(1) obtain off n b1 where p: "put b s key val = (Inr (off, n), b1, s')"
    and b': "b' = b1\<lparr>b_t := Insert key \<lparr>FileID = FileID_of (b_curr b1), ItemOffset = off, ItemSize = n\<rparr> (b_t b1)\<rparr>"
    by (rule Put_None)
  show ?thesis
  proof (cases "Size (b_curr b) > MaxDatafileSize (b_cfg b)")
    case True
    note f = put_roll_Inr [OF p True]
    show ?thesis
      unfolding b' active_consistent_def using f(4,7,8) by (simp add: f(2))
  next
    case False
    note f = put_keep_Inr [OF p False]
    show ?thesis
      using assms(2) f(3) unfolding b' active_consistent_def f(1) f(5) by simp
  qed
qed

lemma ChecksumIEEE_Nil: "ChecksumIEEE [] = 0"
  by (simp add: ChecksumIEEE_def)

text \<open>
  C9. \<open>Delete\<close> checks nothing about its key. For every key, the empty one and those
  longer than \<open>max_key_size\<close> included: when the append of the internal \<open>put\<close> succeeds,
  \<open>Delete\<close> returns a nil error, the last call on the segment files is the append of the
  tombstone to the active segment, whose file has grown by exactly these bytes, and the
  tombstone is the length prefix, the key itself, no value, and the checksum zero.
\<close>

theorem Delete_no_admission_check:
  assumes "put b s key [] = (Inr (off, n), b1, s1)"
  shows "Delete b s key = (None, b1\<lparr>b_t := Delete_key key (b_t b1)\<rparr>, s1)
         \<and> last (trace s1) = EvAppend (df_name (b_curr b1)) (EncodeBytes (NewEntry key []))
         \<and> content s1 (df_name (b_curr b1))
             = content s (df_name (b_curr b1)) @ EncodeBytes (NewEntry key [])
         \<and> EncodeBytes (NewEntry key [])
             = PutUint32 (of_nat (length key)) @ PutUint64 0 @ key @ PutUint32 0"
proof -
  have 1: "Delete b s key = (None, b1\<lparr>b_t := Delete_key key (b_t b1)\<rparr>, s1)"
    using assms by (simp add: Delete_def)
  have 2: "last (trace s1) = EvAppend (df_name (b_curr b1)) (EncodeBytes (NewEntry key []))
           \<and> content s1 (df_name (b_curr b1))
               = content s (df_name (b_curr b1)) @ EncodeBytes (NewEntry key [])"
  proof (cases "Size (b_curr b) > MaxDatafileSize (b_cfg b)")
    case True
    note f = put_roll_Inr [OF assms True]
    from f(9) obtain evs where "trace s1 = trace s @ evs @
        [EvOpen (Join (b_path b) (defaultDatafileFilename (df_id (b_curr b)))) True,
         EvOpen (Join (b_path b) (defaultDatafileFilename (wrap64 (df_id (b_curr b) + 1)))) False,
         EvAppend (Join (b_path b) (defaultDatafileFilename (wrap64 (df_id (b_curr b) + 1))))
           (EncodeBytes (NewEntry key []))]" by blast
    then show ?thesis
      using f(8) by (simp add: f(2))
  next
    case False
    note f = put_keep_Inr [OF assms False]
    show ?thesis
      using f(4,5) by (simp add: f(1))
  qed
  have 3: "EncodeBytes (NewEntry key [])
             = PutUint32 (of_nat (length key)) @ PutUint64 0 @ key @ PutUint32 0"
    by (simp add: EncodeBytes_def NewEntry_def ChecksumIEEE_Nil)
  from 1 2 3 show ?thesis by simp
qed

lemma name0: "defaultDatafileFilename 0 = ''000000000.data''"
  by (simp add: defaultDatafileFilename_def digits.simps pad0_def eval_nat_numeral)

lemma name1: "defaultDatafileFilename 1 = ''000000001.data''"
  by (simp add: defaultDatafileFilename_def digits.simps pad0_def eval_nat_numeral)

lemma Open_fresh: "Open ''/tmp/db'' cfg_ex disk_empty = (Inr b_fresh, s_fresh)"
  by (simp add: Open_def reopen_def loadDatafiles_def GetDatafiles_def ParseIds_def
        loadIndex_def Load_def getSortedDatafiles_def New_def
        NewDatafile_def name0 Join_def Exists_def emit_def content_def Let_def
        cfg_ex_def disk_empty_def b_fresh_def s_fresh_def)

lemma put_keep_ok:
  assumes "\<not> Size (b_curr b) > MaxDatafileSize (b_cfg b)"
    and "df_w (b_curr b)" "\<not> df_closed (b_curr b)" "\<not> df_werr (b_curr b)"
    and "faults s = []"
  shows "put b s key val =
     (Inr (df_offset (b_curr b), EncodeLen (NewEntry key val)),
      b\<lparr>b_curr := (b_curr b)\<lparr>df_offset := df_offset (b_curr b) + EncodeLen (NewEntry key val)\<rparr>\<rparr>,
      emit (EvAppend (df_name (b_curr b)) (EncodeBytes (NewEntry key val)))
        (s\<lparr>files := AList.update (df_name (b_curr b))
                       (content s (df_name (b_curr b)) @ EncodeBytes (NewEntry key val)) (files s),
           faults := []\<rparr>))"
  using assms by (simp add: put_keep Write_def Encode_def)

lemma Put_fresh_ok: "fst (Put b_fresh s_fresh [0x68] [0x77]) = None"
proof -
  have "put b_fresh s_fresh [0x68] [0x77] = (Inr (0, EncodeLen (NewEntry [0x68] [0x77])),
      b_fresh\<lparr>b_curr := (b_curr b_fresh)\<lparr>df_offset := df_offset (b_curr b_fresh) + EncodeLen (NewEntry [0x68] [0x77])\<rparr>\<rparr>,
      emit (EvAppend (df_name (b_curr b_fresh)) (EncodeBytes (NewEntry [0x68] [0x77])))
        (s_fresh\<lparr>files := AList.update (df_name (b_curr b_fresh))
                       (content s_fresh (df_name (b_curr b_fresh)) @ EncodeBytes (NewEntry [0x68] [0x77])) (files s_fresh),
           faults := []\<rparr>))"
    using put_keep_ok [of b_fresh s_fresh "[0x68]" "[0x77]"]
    by (simp add: b_fresh_def s_fresh_def cfg_ex_def Size_def)
  then show ?thesis
    by (simp add: Put_def b_fresh_def cfg_ex_def)
qed

section \<open>Deleting, and the sync option\<close>

theorem Delete_no_admission_check_witness:
  "fst (Delete b_fresh s_fresh []) = None
   \<and> last (trace (snd (snd (Delete b_fresh s_fresh []))))
       = EvAppend ''/tmp/db/000000000.data'' (EncodeBytes (NewEntry [] []))
   \<and> fst (Delete b_fresh s_fresh (replicate 65 0)) = None
   \<and> last (trace (snd (snd (Delete b_fresh s_fresh (replicate 65 0)))))
       = EvAppend ''/tmp/db/000000000.data'' (EncodeBytes (NewEntry (replicate 65 0) []))
   \<and> (of_nat (length (replicate 65 (0 :: byte))) :: 32 word) > MaxKeySize (b_cfg b_fresh)"
proof -
  have ok: "\<not> Size (b_curr b_fresh) > MaxDatafileSize (b_cfg b_fresh)"
      "df_w (b_curr b_fresh)" "\<not> df_closed (b_curr b_fresh)" "\<not> df_werr (b_curr b_fresh)"
      "faults s_fresh = []"
    by (simp_all add: b_fresh_def s_fresh_def cfg_ex_def Size_def)
  note p = put_keep_ok [OF ok]
  have n: "df_name (b_curr b_fresh) = ''/tmp/db/000000000.data''"
    by (simp add: b_fresh_def)
  have 1: "fst (Delete b_fresh s_fresh []) = None
           \<and> last (trace (snd (snd (Delete b_fresh s_fresh []))))
               = EvAppend ''/tmp/db/000000000.data'' (EncodeBytes (NewEntry [] []))"
    using Delete_no_admission_check [OF p [of "[]"]] by (simp add: n)
  have 2: "fst (Delete b_fresh s_fresh (replicate 65 0)) = None
           \<and> last (trace (snd (snd (Delete b_fresh s_fresh (replicate 65 0)))))
               = EvAppend ''/tmp/db/000000000.data'' (EncodeBytes (NewEntry (replicate 65 0) []))"
    using Delete_no_admission_check [OF p [of "replicate 65 0"]] by (simp add: n)
  have 3: "(of_nat (length (replicate 65 (0 :: byte))) :: 32 word) > MaxKeySize (b_cfg b_fresh)"
    by (simp add: b_fresh_def cfg_ex_def)
  from 1 2 3 show ?thesis by simp
qed

lemma put_cfg_Sync:
  "put (b\<lparr>b_cfg := (b_cfg b)\<lparr>Sync := x\<rparr>\<rparr>) s key val
     = (case put b s key val of (r, b', s') \<Rightarrow> (r, b'\<lparr>b_cfg := (b_cfg b')\<lparr>Sync := x\<rparr>\<rparr>, s'))"
  by (simp add: put_def Let_def split: prod.splits sum.splits option.splits)

lemma Put_cfg_Sync:
  "Put (b\<lparr>b_cfg := (b_cfg b)\<lparr>Sync := x\<rparr>\<rparr>) s key val
     = (case Put b s key val of (r, b', s') \<Rightarrow> (r, b'\<lparr>b_cfg := (b_cfg b')\<lparr>Sync := x\<rparr>\<rparr>, s'))"
  by (simp add: Put_def put_cfg_Sync split: prod.splits sum.splits option.splits)

lemma put_Inr_last:
  assumes "put b s key val = (Inr (off, n), b1, s1)"
  shows "last (trace s1) = EvAppend (df_name (b_curr b1)) (EncodeBytes (NewEntry key val))"
proof (cases "Size (b_curr b) > MaxDatafileSize (b_cfg b)")
  case True
  note f = put_roll_Inr [OF assms True]
  from f(9) obtain evs where "trace s1 = trace s @ evs @
      [EvOpen (Join (b_path b) (defaultDatafileFilename (df_id (b_curr b)))) True,
       EvOpen (Join (b_path b) (defaultDatafileFilename (wrap64 (df_id (b_curr b) + 1)))) False,
       EvAppend (Join (b_path b) (defaultDatafileFilename (wrap64 (df_id (b_curr b) + 1))))
         (EncodeBytes (NewEntry key val))]" by blast
  then show ?thesis
    by (simp add: f(2))
next
  case False
  note f = put_keep_Inr [OF assms False]
  show ?thesis
    using f(4) by (simp add: f(1))
qed

text \<open>
  C5, as amended. \<open>Put\<close> never reads the configuration field \<open>sync\<close> and never syncs
  after its append: when a \<open>Put\<close> has completed, the last call made on the segment files
  is the append of the record to the active segment (no fsync follows it before \<open>Put\<close>
  returns), and with \<open>sync\<close> set to any other value the same \<open>Put\<close> returns the same
  result, the same directory state and the same engine.
\<close>

theorem Put_ends_with_append:
  assumes "Put b s key val = (None, b', s')"
  shows "last (trace s') = EvAppend (df_name (b_curr b')) (EncodeBytes (NewEntry key val))
         \<and> Put (b\<lparr>b_cfg := (b_cfg b)\<lparr>Sync := x\<rparr>\<rparr>) s key val
             = (None, b'\<lparr>b_cfg := (b_cfg b')\<lparr>Sync := x\<rparr>\<rparr>, s')"
proof -
  from assms obtain off n b1 where p: "put b s key val = (Inr (off, n), b1, s')"
    and b': "b' = b1\<lparr>b_t := Insert key \<lparr>FileID = FileID_of (b_curr b1), ItemOffset = off, ItemSize = n\<rparr> (b_t b1)\<rparr>"
    by (rule Put_None)
  have "last (trace s') = EvAppend (df_name (b_curr b')) (EncodeBytes (NewEntry key val))"
    using put_Inr_last [OF p] by (simp add: b')
  moreover have "Put (b\<lparr>b_cfg := (b_cfg b)\<lparr>Sync := x\<rparr>\<rparr>) s key val
             = (None, b'\<lparr>b_cfg := (b_cfg b')\<lparr>Sync := x\<rparr>\<rparr>, s')"
    by (simp add: Put_cfg_Sync assms)
  ultimately show ?thesis by simp
qed

text \<open>
  C5 as stated fails on the engine just opened on an empty directory with \<open>sync = true\<close>:
  \<open>Put\<close> of one key completes, and the calls made on the segment files are the opening
  of the segment and the append, with no fsync.
\<close>

theorem Put_sync_counterexample:
  "Sync (b_cfg b_fresh)
   \<and> fst (Put b_fresh s_fresh [0x68] [0x77]) = None
   \<and> trace (snd (snd (Put b_fresh s_fresh [0x68] [0x77])))
       = [EvOpen ''/tmp/db/000000000.data'' False,
          EvAppend ''/tmp/db/000000000.data'' (EncodeBytes (NewEntry [0x68] [0x77]))]"
proof -
  have ok: "\<not> Size (b_curr b_fresh) > MaxDatafileSize (b_cfg b_fresh)"
      "df_w (b_curr b_fresh)" "\<not> df_closed (b_curr b_fresh)" "\<not> df_werr (b_curr b_fresh)"
      "faults s_fresh = []"
    by (simp_all add: b_fresh_def s_fresh_def cfg_ex_def Size_def)
  note p = put_keep_ok [OF ok, of "[0x68]" "[0x77]"]
  have lim: "\<not> (of_nat (length [0x68 :: byte]) :: 32 word) > MaxKeySize (b_cfg b_fresh)"
     "\<not> (of_nat (length [0x77 :: byte]) :: 64 word) > MaxValueSize (b_cfg b_fresh)"
    by (simp_all add: b_fresh_def cfg_ex_def)
  have "Sync (b_cfg b_fresh)"
    by (simp add: b_fresh_def cfg_ex_def)
  moreover have "fst (Put b_fresh s_fresh [0x68] [0x77]) = None"
    using lim by (simp add: Put_def p)
  moreover have "trace (snd (snd (Put b_fresh s_fresh [0x68] [0x77])))
       = [EvOpen ''/tmp/db/000000000.data'' False,
          EvAppend ''/tmp/db/000000000.data'' (EncodeBytes (NewEntry [0x68] [0x77]))]"
    using lim by (simp add: Put_def p) (simp add: b_fresh_def s_fresh_def)
  ultimately show ?thesis by simp
qed

theorem Put_ends_with_append_witness:
  "last (trace (snd (snd (Put b_fresh s_fresh [0x68] [0x77]))))
     = EvAppend (df_name (b_curr (fst (snd (Put b_fresh s_fresh [0x68] [0x77])))))
         (EncodeBytes (NewEntry [0x68] [0x77]))"
proof -
  have p: "Put b_fresh s_fresh [0x68] [0x77]
             = (None, fst (snd (Put b_fresh s_fresh [0x68] [0x77])),
                snd (snd (Put b_fresh s_fresh [0x68] [0x77])))"
    using Put_fresh_ok by (simp add: prod_eq_iff)
  show ?thesis
    using Put_ends_with_append [OF p] by simp
qed

section \<open>Rollover\<close>

lemma put_roll_ok:
  assumes "Size (b_curr b) > MaxDatafileSize (b_cfg b)"
    and "Exists s (Join (b_path b) (defaultDatafileFilename (df_id (b_curr b))))"
    and "faults s = []"
  shows "\<exists>b' s'. put b s key val =
           (Inr (int (length (content s (Join (b_path b)
                    (defaultDatafileFilename (wrap64 (df_id (b_curr b) + 1)))))),
                 EncodeLen (NewEntry key val)), b', s')"
proof -
  obtain r0 c0 s0 where c: "Close_df (b_curr b) s = (r0, c0, s0)"
    by (metis prod_cases3)
  note cf = Close_df_facts [OF c]
  have ex0: "Exists s0 (Join (b_path b) (defaultDatafileFilename (df_id c0)))"
    using assms(2) cf(1,3) c
    by (auto simp: Close_df_def Sync_df_def Exists_def emit_def split: if_splits)
  obtain d1 s1 where n1: "NewDatafile (b_path b) (df_id c0) True (MaxKeySize (b_cfg b)) (MaxValueSize (b_cfg b)) s0 = (Inr d1, s1)"
    using ex0 by (auto simp: NewDatafile_def Let_def Exists_def emit_def)
  obtain d2 s2 where n2: "NewDatafile (b_path b) (wrap64 (df_id c0 + 1)) False (MaxKeySize (b_cfg b)) (MaxValueSize (b_cfg b)) s1 = (Inr d2, s2)"
    using NewDatafile_rw by blast
  note f1 = NewDatafile_Inr [OF n1]
  note f2 = NewDatafile_Inr [OF n2]
  have fl: "faults s2 = []"
    using f2(4) f1(4) cf(2) assms(3) by simp
  have w: "Write d2 (NewEntry key val) s2 =
      (Inr (df_offset d2, EncodeLen (NewEntry key val)),
       d2\<lparr>df_offset := df_offset d2 + EncodeLen (NewEntry key val)\<rparr>,
       emit (EvAppend (df_name d2) (EncodeBytes (NewEntry key val)))
         (s2\<lparr>files := AList.update (df_name d2) (content s2 (df_name d2) @ EncodeBytes (NewEntry key val)) (files s2),
             faults := tl (faults s2)\<rparr>))"
    using fl by (simp add: Write_def Encode_def f2(1))
  have off: "df_offset d2 = int (length (content s (Join (b_path b)
                    (defaultDatafileFilename (wrap64 (df_id (b_curr b) + 1))))))"
    using f2(1,2) f1(2) cf(1,3) by simp
  show ?thesis
    by (simp add: put_roll [OF assms(1)] c n1 n2 w off)
qed

text \<open>
  C6. Rollover. Let a write (the internal \<open>put\<close>) complete on an engine whose active
  segment is open for writing, has the file named by its id, and has an id below the
  largest \<open>int\<close>. If the active segment's size was strictly greater than
  \<open>max_datafile_size\<close>, the calls made on the segment files are exactly: fsync and close
  of the active segment's write handle, opening of the same id read-only, opening (and
  creating) of id + 1 for writing, and the append of the new record to id + 1; the
  read-only segment is entered into the frozen segments under the old id, and the active
  segment has id + 1. If the size was not greater, the only call is the append to the
  active segment, whose id stays, and the frozen segments are unchanged.
\<close>

theorem put_rollover:
  assumes "put b s key val = (Inr (off, n), b', s')"
    and "df_w (b_curr b)" "\<not> df_closed (b_curr b)"
    and "df_name (b_curr b) = Join (b_path b) (defaultDatafileFilename (df_id (b_curr b)))"
    and "- (2 ^ 63) \<le> df_id (b_curr b)" "df_id (b_curr b) < 2 ^ 63 - 1"
  shows
    "(let i = df_id (b_curr b);
          old = Join (b_path b) (defaultDatafileFilename i);
          new = Join (b_path b) (defaultDatafileFilename (i + 1));
          enc = EncodeBytes (NewEntry key val)
      in if Size (b_curr b) > MaxDatafileSize (b_cfg b)
         then trace s' = trace s @ [EvFsync old, EvClose old, EvOpen old True,
                                      EvOpen new False, EvAppend new enc]
              \<and> b_datafiles b' = AList.update i
                    \<lparr>df_name = old, df_r = 0, df_ra = content s old, df_w = False, df_id = i,
                       df_offset = int (length (content s old)),
                       df_maxKeySize = MaxKeySize (b_cfg b),
                       df_maxValueSize = MaxValueSize (b_cfg b),
                       df_closed = False, df_werr = False\<rparr> (b_datafiles b)
              \<and> df_id (b_curr b') = i + 1 \<and> df_name (b_curr b') = new \<and> df_w (b_curr b')
              \<and> content s' = (content s)(new := content s new @ enc)
         else trace s' = trace s @ [EvAppend old enc]
              \<and> b_datafiles b' = b_datafiles b
              \<and> df_id (b_curr b') = i \<and> df_name (b_curr b') = old \<and> df_w (b_curr b')
              \<and> content s' = (content s)(old := content s old @ enc))"
proof (cases "Size (b_curr b) > MaxDatafileSize (b_cfg b)")
  case True
  note f = put_roll_Inr [OF assms(1) True]
  have w: "wrap64 (df_id (b_curr b) + 1) = df_id (b_curr b) + 1"
    using assms(5,6) by (simp add: wrap64_id)
  from f(9) obtain evs where tr: "trace s' = trace s @ evs @
      [EvOpen (Join (b_path b) (defaultDatafileFilename (df_id (b_curr b)))) True,
       EvOpen (Join (b_path b) (defaultDatafileFilename (wrap64 (df_id (b_curr b) + 1)))) False,
       EvAppend (Join (b_path b) (defaultDatafileFilename (wrap64 (df_id (b_curr b) + 1))))
         (EncodeBytes (NewEntry key val))]"
    and evs: "df_w (b_curr b) \<and> \<not> df_closed (b_curr b)
              \<longrightarrow> evs = [EvFsync (df_name (b_curr b)), EvClose (df_name (b_curr b))]"
    by blast
  have e: "evs = [EvFsync (df_name (b_curr b)), EvClose (df_name (b_curr b))]"
    using evs assms(2,3) by simp
  show ?thesis
    using True tr f(1) f(8) unfolding e w Let_def assms(4) [symmetric]
    by (simp add: f(2) w assms(4) [symmetric])
next
  case False
  note f = put_keep_Inr [OF assms(1) False]
  show ?thesis
    using False f(4,5,6) unfolding Let_def assms(4) [symmetric]
    by (simp add: f(1))
qed

lemma name0': "Join ''/tmp/db'' (defaultDatafileFilename 0) = ''/tmp/db/000000000.data''"
  by (simp add: name0 Join_def)

lemma name1': "Join ''/tmp/db'' (defaultDatafileFilename 1) = ''/tmp/db/000000001.data''"
  by (simp add: name1 Join_def)

theorem put_rollover_witness:
  "Size (b_curr b_full) > MaxDatafileSize (b_cfg b_full)
   \<and> trace (snd (snd (put b_full s_full [0x6b] [0x76])))
       = [EvFsync ''/tmp/db/000000000.data'', EvClose ''/tmp/db/000000000.data'',
          EvOpen ''/tmp/db/000000000.data'' True, EvOpen ''/tmp/db/000000001.data'' False,
          EvAppend ''/tmp/db/000000001.data'' (EncodeBytes (NewEntry [0x6b] [0x76]))]
   \<and> map fst (b_datafiles (fst (snd (put b_full s_full [0x6b] [0x76])))) = [0]
   \<and> df_id (b_curr (fst (snd (put b_full s_full [0x6b] [0x76])))) = 1"
proof -
  have big: "Size (b_curr b_full) > MaxDatafileSize (b_cfg b_full)"
    by (simp add: b_full_def cfg_ex_def Size_def)
  have ex: "Exists s_full (Join (b_path b_full) (defaultDatafileFilename (df_id (b_curr b_full))))"
    by (simp add: b_full_def s_full_def Exists_def name0')
  have fl: "faults s_full = []"
    by (simp add: s_full_def)
  from put_roll_ok [OF big ex fl, of "[0x6b]" "[0x76]"]
  obtain off n b' s' where p: "put b_full s_full [0x6b] [0x76] = (Inr (off, n), b', s')"
    by blast
  have h: "df_w (b_curr b_full)" "\<not> df_closed (b_curr b_full)"
    "df_name (b_curr b_full) = Join (b_path b_full) (defaultDatafileFilename (df_id (b_curr b_full)))"
    "- (2 ^ 63) \<le> df_id (b_curr b_full)" "df_id (b_curr b_full) < 2 ^ 63 - 1"
    by (simp_all add: b_full_def name0')
  have i: "df_id (b_curr b_full) = 0" "b_path b_full = ''/tmp/db''" "b_datafiles b_full = []"
     "trace s_full = []"
    by (simp_all add: b_full_def s_full_def)
  show ?thesis
    using put_rollover [OF p h] big
    by (simp add: p Let_def i name0' name1')
qed


section \<open>The order of segment ids\<close>

lemma wrap64_ge: "x < 2 ^ 63 \<Longrightarrow> x \<le> wrap64 x"
proof -
  assume a: "x < 2 ^ 63"
  show ?thesis
  proof (cases "- (2 ^ 63) \<le> x")
    case True
    then show ?thesis using a by (simp add: wrap64_def)
  next
    case False
    have "0 \<le> (x + 2 ^ 63) mod 2 ^ 64" by simp
    then show ?thesis using False by (simp add: wrap64_def)
  qed
qed

lemma wrap64_range: "- (2 ^ 63) \<le> wrap64 x \<and> wrap64 x < 2 ^ 63"
proof -
  have "0 \<le> (x + 2 ^ 63) mod (2 ^ 64 :: int)" "(x + 2 ^ 63) mod (2 ^ 64 :: int) < 2 ^ 64"
    by simp_all
  then show ?thesis by (simp add: wrap64_def)
qed

lemma put_ids:
  assumes "put b s key val = (r, b', s')"
  shows "df_id (b_curr b') = df_id (b_curr b) \<or> df_id (b_curr b') = wrap64 (df_id (b_curr b) + 1)"
    and "fst ` set (b_datafiles b') \<subseteq> insert (df_id (b_curr b)) (fst ` set (b_datafiles b))"
    and "length (b_t b') = length (b_t b)"
proof -
  have "(df_id (b_curr b') = df_id (b_curr b) \<or> df_id (b_curr b') = wrap64 (df_id (b_curr b) + 1))
      \<and> fst ` set (b_datafiles b') \<subseteq> insert (df_id (b_curr b)) (fst ` set (b_datafiles b))
      \<and> length (b_t b') = length (b_t b)"
  proof (cases "Size (b_curr b) > MaxDatafileSize (b_cfg b)")
    case False
    obtain res c' where w: "Write (b_curr b) (NewEntry key val) s = (res, c', s')"
      and b': "b' = b\<lparr>b_curr := c'\<rparr>"
      using assms by (auto simp: put_keep [OF False] split: prod.splits)
    have "df_id c' = df_id (b_curr b)"
      using w by (auto simp: Write_def Let_def split: if_splits prod.splits sum.splits)
    then show ?thesis by (auto simp: b')
  next
    case True
    obtain r0 c0 s0 where c: "Close_df (b_curr b) s = (r0, c0, s0)"
      by (metis prod_cases3)
    note cf = Close_df_facts [OF c]
    obtain r1 s1 where n1: "NewDatafile (b_path b) (df_id c0) True (MaxKeySize (b_cfg b)) (MaxValueSize (b_cfg b)) s0 = (r1, s1)"
      by (metis surj_pair)
    obtain r2 s2 where n2: "NewDatafile (b_path b) (wrap64 (df_id c0 + 1)) False (MaxKeySize (b_cfg b)) (MaxValueSize (b_cfg b)) s1 = (r2, s2)"
      by (metis surj_pair)
    show ?thesis
    proof (cases r1)
      case (Inl e)
      then have "b' = b\<lparr>b_curr := c0\<rparr>"
        using assms by (auto simp: put_roll [OF True] c n1)
      then show ?thesis
        using cf(3) by auto
    next
      case (Inr d1)
      note r1 = this
      show ?thesis
      proof (cases r2)
        case (Inl e)
        then have "b' = b\<lparr>b_curr := c0, b_datafiles := AList.update (df_id c0) d1 (b_datafiles b)\<rparr>"
          using assms by (auto simp: put_roll [OF True] c n1 r1 n2)
        then show ?thesis
          using cf(3) by (auto simp: dom_update)
      next
        case (Inr d2)
        obtain res c' where w: "Write d2 (NewEntry key val) s2 = (res, c', s')"
          and b': "b' = b\<lparr>b_curr := c', b_datafiles := AList.update (df_id c0) d1 (b_datafiles b)\<rparr>"
          using assms by (auto simp: put_roll [OF True] c n1 r1 n2 Inr split: prod.splits)
        have "df_id c' = df_id d2"
          using w by (auto simp: Write_def Let_def split: if_splits prod.splits sum.splits)
        moreover have "df_id d2 = wrap64 (df_id c0 + 1)"
          using NewDatafile_Inr(1) [OF n2 [unfolded Inr]] by simp
        ultimately show ?thesis
          using cf(3) by (auto simp: b' dom_update)
      qed
    qed
  qed
  then show "df_id (b_curr b') = df_id (b_curr b) \<or> df_id (b_curr b') = wrap64 (df_id (b_curr b) + 1)"
    and "fst ` set (b_datafiles b') \<subseteq> insert (df_id (b_curr b)) (fst ` set (b_datafiles b))"
    and "length (b_t b') = length (b_t b)"
    by simp_all
qed

lemma put_frozen_le:
  assumes "put b s key val = (r, b', s')"
    and "frozen_le_active b"
    and "- (2 ^ 63) \<le> df_id (b_curr b)" "df_id (b_curr b) + 1 < 2 ^ 63"
  shows "frozen_le_active b'"
    and "df_id (b_curr b) \<le> df_id (b_curr b')" "df_id (b_curr b') \<le> df_id (b_curr b) + 1"
proof -
  note f = put_ids [OF assms(1)]
  have w: "wrap64 (df_id (b_curr b) + 1) = df_id (b_curr b) + 1"
    using assms(3,4) by (simp add: wrap64_id)
  show 1: "df_id (b_curr b) \<le> df_id (b_curr b')"
    using f(1) w by auto
  show "df_id (b_curr b') \<le> df_id (b_curr b) + 1"
    using f(1) w by auto
  show "frozen_le_active b'"
    using f(2) assms(2) 1 unfolding frozen_le_active_def FileID_of_def by fastforce
qed

lemma delete_each_frozen_le:
  assumes "delete_each ks b s = (r, b', s')"
    and "frozen_le_active b"
    and "- (2 ^ 63) \<le> df_id (b_curr b)" "df_id (b_curr b) + int (length ks) < 2 ^ 63"
  shows "frozen_le_active b'"
  using assms
proof (induction ks arbitrary: b s)
  case Nil
  then show ?case by simp
next
  case (Cons k ks)
  obtain r1 b1 s1 where p: "put b s k [] = (r1, b1, s1)"
    by (metis prod_cases3)
  have r: "df_id (b_curr b) + 1 < 2 ^ 63"
    using Cons.prems(4) by simp
  note f = put_frozen_le [OF p Cons.prems(2,3) r]
  show ?case
  proof (cases r1)
    case (Inl e)
    then show ?thesis using Cons.prems(1) p f(1) by simp
  next
    case (Inr x)
    then have d: "delete_each ks b1 s1 = (r, b', s')"
      using Cons.prems(1) p by simp
    show ?thesis
      using Cons.IH [OF d f(1)] f(2,3) Cons.prems(3,4) by simp
  qed
qed

lemma close_each_keys:
  "close_each dfs s = (r, dfs', s') \<Longrightarrow> map fst dfs' = map fst dfs"
proof (induction dfs arbitrary: s r dfs' s')
  case Nil
  then show ?case by simp
next
  case (Cons a dfs)
  obtain i f where a: "a = (i, f)" by (cases a)
  obtain r1 f1 s1 where c: "Close_df f s = (r1, f1, s1)" by (metis prod_cases3)
  show ?case
  proof (cases r1)
    case (Some e)
    then show ?thesis using Cons.prems a c by auto
  next
    case None
    obtain r2 dfs2 s2 where c2: "close_each dfs s1 = (r2, dfs2, s2)" by (metis prod_cases3)
    from Cons.IH [OF c2] show ?thesis
      using Cons.prems a c None c2 by auto
  qed
qed

lemma Close_frozen_le:
  assumes "Close b s = (r, b', s')" and "frozen_le_active b"
  shows "frozen_le_active b'"
proof -
  obtain r1 s1 where sv: "Save (b_t b) (Join (b_path b) ''index'') s = (r1, s1)"
    by (metis surj_pair)
  have r1: "r1 = None" using sv by (simp add: Save_def)
  obtain r2 dfs2 s2 where ce: "close_each (b_datafiles b) s1 = (r2, dfs2, s2)"
    by (metis prod_cases3)
  have k: "fst ` set dfs2 = fst ` set (b_datafiles b)"
    using close_each_keys [OF ce] by (metis list.set_map)
  have "fst ` set (b_datafiles b') = fst ` set (b_datafiles b)
        \<and> df_id (b_curr b') = df_id (b_curr b)"
  proof (cases r2)
    case (Some e)
    then have "b' = b\<lparr>b_datafiles := dfs2\<rparr>"
      using assms(1) sv r1 ce by (auto simp: Close_def)
    then show ?thesis
      using k by simp
  next
    case None
    obtain r3 c3 s3 where cd: "Close_df (b_curr b) s2 = (r3, c3, s3)"
      by (metis prod_cases3)
    have "df_id c3 = df_id (b_curr b)"
      by (rule Close_df_facts(3) [OF cd])
    moreover have "b' = b\<lparr>b_datafiles := dfs2, b_curr := c3\<rparr>"
      using assms(1) sv r1 ce None cd by (auto simp: Close_def)
    ultimately show ?thesis
      using k by simp
  qed
  then show ?thesis
    using assms(2) by (simp add: frozen_le_active_def FileID_of_def)
qed


lemma parse_each_Inr:
  "parse_each fns acc = Inr ids \<Longrightarrow>
     \<exists>ps. ids = acc @ ps \<and> length ps = length fns
          \<and> list_all2 (\<lambda>fn p. ParseInt (TrimSuffix (Base fn) (Ext fn)) = Inr p) fns ps"
proof (induction fns arbitrary: acc)
  case Nil
  then show ?case by simp
next
  case (Cons fn fns)
  from Cons.prems obtain i where i: "ParseInt (TrimSuffix (Base fn) (Ext fn)) = Inr i"
    and r: "parse_each fns (acc @ [i]) = Inr ids"
    by (auto split: sum.splits)
  from Cons.IH [OF r] obtain ps where "ids = (acc @ [i]) @ ps" "length ps = length fns"
    "list_all2 (\<lambda>fn p. ParseInt (TrimSuffix (Base fn) (Ext fn)) = Inr p) fns ps"
    by blast
  then show ?case
    using i by (intro exI [of _ "i # ps"]) simp
qed

lemma ParseIds_sorted: "ParseIds fns = Inr ids \<Longrightarrow> sorted ids"
  by (auto simp: ParseIds_def split: sum.splits)

lemma sorted_le_last: "sorted xs \<Longrightarrow> x \<in> set xs \<Longrightarrow> x \<le> last xs"
  by (induction xs) (auto split: if_splits)

lemma set_AList_update: "set (AList.update k v al) \<subseteq> insert (k, v) (set al)"
  by (induct al) auto

lemma open_each_keys:
  assumes "open_each path mk mv ids dfs s = (Inr dfs', s')"
    and "\<forall>(i, d) \<in> set dfs. df_id d = i"
  shows "fst ` set dfs' \<subseteq> fst ` set dfs \<union> set ids \<and> (\<forall>(i, d) \<in> set dfs'. df_id d = i)"
  using assms
proof (induction ids arbitrary: dfs s)
  case Nil
  then show ?case by auto
next
  case (Cons i ids)
  from Cons.prems(1) obtain f s1 where n: "NewDatafile path i True mk mv s = (Inr f, s1)"
    and r: "open_each path mk mv ids (AList.update i f dfs) s1 = (Inr dfs', s')"
    by (auto split: prod.splits sum.splits)
  have fi: "df_id f = i"
    using NewDatafile_Inr(1) [OF n] by simp
  have inv: "\<forall>(j, d) \<in> set (AList.update i f dfs). df_id d = j"
    using Cons.prems(2) fi set_AList_update [of i f dfs] by auto
  from Cons.IH [OF r inv] show ?case
    by (auto simp: dom_update)
qed

lemma Read_id: "Read f s = (res, f') \<Longrightarrow> df_id f' = df_id f"
  by (auto simp: Read_def split: if_splits prod.splits)

lemma scan_each_ids: "scan_each fs s tr off = (res, fs') \<Longrightarrow> map df_id fs' = map df_id fs"
proof (induction fs arbitrary: tr off res fs')
  case Nil
  then show ?case by simp
next
  case (Cons f fs)
  obtain r1 f1 where rd: "Read f s = (r1, f1)" by (metis surj_pair)
  note i = Read_id [OF rd]
  show ?case
  proof (cases r1)
    case (Inl e)
    then show ?thesis using Cons.prems rd i by auto
  next
    case (Inr x)
    obtain e n where x: "x = (e, n)" by (cases x)
    obtain tr' where tr': "tr' = (if length (Value e) = 0 then Delete_key (Key e) tr
        else Insert (Key e) \<lparr>FileID = FileID_of f1, ItemOffset = off, ItemSize = n\<rparr> tr)"
      by simp
    obtain r2 fs2 where sc: "scan_each fs s tr' (off + n) = (r2, fs2)" by (metis surj_pair)
    from Cons.IH [OF sc] show ?thesis
      using Cons.prems rd Inr x sc i tr' by (auto simp: Let_def)
  qed
qed

lemma loadIndex_keys:
  assumes "loadIndex path mk dfs s = Inr (tr, dfs')"
    and "\<forall>(i, d) \<in> set dfs. df_id d = i"
  shows "fst ` set dfs' \<subseteq> fst ` set dfs"
proof -
  obtain tr0 found where l: "Load (Join path ''index'') mk s = Inr (tr0, found)"
    using assms(1) by (auto simp: loadIndex_def split: sum.splits)
  show ?thesis
  proof (cases found)
    case True
    then show ?thesis using assms(1) l by (simp add: loadIndex_def)
  next
    case False
    obtain r fs' where sc: "scan_each (getSortedDatafiles dfs) s tr0 0 = (r, fs')"
      by (metis surj_pair)
    have d: "dfs' = map (\<lambda>f. (FileID_of f, f)) fs'"
      using assms(1) l False sc by (auto simp: loadIndex_def split: sum.splits)
    have "fst ` set dfs' = set (map df_id fs')"
      by (auto simp: d FileID_of_def image_iff)
    also have "\<dots> = set (map df_id (getSortedDatafiles dfs))"
      using scan_each_ids [OF sc] by simp
    also have "\<dots> = df_id ` snd ` set dfs"
      by (simp add: getSortedDatafiles_def image_image)
    also have "\<dots> \<subseteq> fst ` set dfs"
      using assms(2) by force
    finally show ?thesis .
  qed
qed

lemma reopen_frozen_le:
  assumes "reopen path cfg s = (Inr b, s')"
  shows "frozen_le_active b"
proof -
  from assms obtain dfs lastID s1 where
    ld: "loadDatafiles path (MaxKeySize cfg) (MaxValueSize cfg) s = (Inr (dfs, lastID), s1)"
    by (auto simp: reopen_def split: prod.splits sum.splits)
  from assms ld obtain tr dfs' where
    li: "loadIndex path (MaxKeySize cfg) dfs s1 = Inr (tr, dfs')"
    by (auto simp: reopen_def split: prod.splits sum.splits)
  from assms ld li obtain c where
    nd: "NewDatafile path lastID False (MaxKeySize cfg) (MaxValueSize cfg) s1 = (Inr c, s')"
    and b: "b = \<lparr>b_cfg = cfg, b_path = path, b_curr = c, b_datafiles = dfs', b_t = tr\<rparr>"
    by (auto simp: reopen_def split: prod.splits sum.splits)
  from ld obtain ids where pi: "ParseIds (GetDatafiles path s) = Inr ids"
    and oe: "open_each path (MaxKeySize cfg) (MaxValueSize cfg) ids [] s = (Inr dfs, s1)"
    and last: "lastID = (if length ids > 0 then last ids else 0)"
    by (auto simp: loadDatafiles_def split: prod.splits sum.splits)
  have k: "fst ` set dfs \<subseteq> set ids" "\<forall>(i, d) \<in> set dfs. df_id d = i"
    using open_each_keys [OF oe] by auto
  have k': "fst ` set dfs' \<subseteq> set ids"
    using loadIndex_keys [OF li k(2)] k(1) by blast
  have c: "df_id c = lastID"
    using NewDatafile_Inr(1) [OF nd] by simp
  show ?thesis
    unfolding frozen_le_active_def FileID_of_def
  proof
    fix i assume "i \<in> fst ` set (b_datafiles b)"
    then have i: "i \<in> set ids" using k' b by auto
    then have "ids \<noteq> []" by auto
    then have "lastID = last ids" using last by simp
    then show "i \<le> df_id (b_curr b)"
      using sorted_le_last [OF ParseIds_sorted [OF pi] i] c b by simp
  qed
qed

text \<open>
  C2, as amended. The active segment's id is greater than or equal to the id of every
  frozen segment: after every successful \<open>reopen\<close> (which is what \<open>Open\<close> runs), and, when
  it holds before, after \<open>Put\<close>, \<open>Delete\<close>, \<open>DeleteAll\<close> and \<open>Close\<close>, whether they succeed or
  fail, as long as the ids stay within Go's \<open>int\<close> (every rollover adds one). \<open>Get\<close>,
  \<open>Has\<close>, \<open>Len\<close> and \<open>Sync\<close> do not change the engine. The inequality is not strict:
  \<open>reopen\<close> leaves the last id among the frozen segments and opens it as the active one
  as well.
\<close>

theorem frozen_ids_le_active:
  "(reopen path cfg s0 = (Inr b0, s1) \<longrightarrow> frozen_le_active b0)
   \<and> (frozen_le_active b \<and> - (2 ^ 63) \<le> df_id (b_curr b) \<and> df_id (b_curr b) + 1 < 2 ^ 63
        \<longrightarrow> frozen_le_active (fst (snd (Put b s key val)))
            \<and> frozen_le_active (fst (snd (Delete b s key))))
   \<and> (frozen_le_active b \<and> - (2 ^ 63) \<le> df_id (b_curr b)
        \<and> df_id (b_curr b) + int (length (b_t b)) < 2 ^ 63
        \<longrightarrow> frozen_le_active (fst (snd (DeleteAll b s))))
   \<and> (frozen_le_active b \<longrightarrow> frozen_le_active (fst (snd (Close b s))))"
proof (intro conjI impI)
  assume "reopen path cfg s0 = (Inr b0, s1)"
  then show "frozen_le_active b0" by (rule reopen_frozen_le)
next
  assume a: "frozen_le_active b \<and> - (2 ^ 63) \<le> df_id (b_curr b) \<and> df_id (b_curr b) + 1 < 2 ^ 63"
  obtain r b1 s' where p: "put b s key val = (r, b1, s')" by (metis prod_cases3)
  have f: "frozen_le_active b1"
    using put_frozen_le(1) [OF p] a by simp
  show "frozen_le_active (fst (snd (Put b s key val)))"
    using a f p
    by (auto simp: Put_def frozen_le_active_def split: sum.splits)
next
  assume a: "frozen_le_active b \<and> - (2 ^ 63) \<le> df_id (b_curr b) \<and> df_id (b_curr b) + 1 < 2 ^ 63"
  obtain r b1 s' where p: "put b s key [] = (r, b1, s')" by (metis prod_cases3)
  have f: "frozen_le_active b1"
    using put_frozen_le(1) [OF p] a by simp
  show "frozen_le_active (fst (snd (Delete b s key)))"
    using f p by (auto simp: Delete_def frozen_le_active_def split: sum.splits)
next
  assume a: "frozen_le_active b \<and> - (2 ^ 63) \<le> df_id (b_curr b)
        \<and> df_id (b_curr b) + int (length (b_t b)) < 2 ^ 63"
  obtain r b1 s' where d: "delete_each (map fst (ForEach (b_t b))) b s = (r, b1, s')"
    by (metis prod_cases3)
  have "frozen_le_active b1"
    using delete_each_frozen_le [OF d] a by (simp add: ForEach_def)
  then show "frozen_le_active (fst (snd (DeleteAll b s)))"
    using d by (simp add: DeleteAll_def frozen_le_active_def)
next
  assume a: "frozen_le_active b"
  obtain r b1 s' where c: "Close b s = (r, b1, s')" by (metis prod_cases3)
  show "frozen_le_active (fst (snd (Close b s)))"
    using Close_frozen_le [OF c a] c by simp
qed


section \<open>Parsing the segment ids\<close>

lemma sort_zeros:
  "\<forall>x \<in> set xs. (0::int) \<le> x \<Longrightarrow> sort (replicate n 0 @ xs) = replicate n 0 @ sort xs"
proof (induction n)
  case 0
  then show ?case by simp
next
  case (Suc n)
  then have "sort (replicate (Suc n) 0 @ xs) = insort 0 (replicate n 0 @ sort xs)"
    by simp
  also have "\<dots> = 0 # replicate n 0 @ sort xs"
    using Suc.prems by (intro insort_is_Cons) auto
  finally show ?case by simp
qed

lemma ParseIds_Inr:
  assumes "ParseIds fns = Inr ids"
  obtains ps where "ids = sort (replicate (length fns) 0 @ ps)" "length ps = length fns"
    and "list_all2 (\<lambda>fn p. parsed_id fn = Inr p) fns ps"
proof -
  from assms obtain xs where x: "parse_each fns (replicate (length fns) 0) = Inr xs"
    and i: "ids = sort xs"
    by (auto simp: ParseIds_def split: sum.splits)
  from parse_each_Inr [OF x] obtain ps where "xs = replicate (length fns) 0 @ ps"
    "length ps = length fns"
    "list_all2 (\<lambda>fn p. ParseInt (TrimSuffix (Base fn) (Ext fn)) = Inr p) fns ps"
    by blast
  then show ?thesis
    using i that by (simp add: parsed_id_def)
qed

lemma open_each_trace:
  "open_each path mk mv ids dfs s = (r, s') \<Longrightarrow> \<exists>evs. trace s' = trace s @ evs"
proof (induction ids arbitrary: dfs s)
  case Nil
  then show ?case by simp
next
  case (Cons i ids)
  obtain r1 s1 where n: "NewDatafile path i True mk mv s = (r1, s1)" by (metis surj_pair)
  show ?case
  proof (cases r1)
    case (Inl e)
    then show ?thesis
      using Cons.prems n NewDatafile_Inl(2) [of path i True mk mv s e s1] by auto
  next
    case (Inr f)
    then have "open_each path mk mv ids (AList.update i f dfs) s1 = (r, s')"
      using Cons.prems n by simp
    from Cons.IH [OF this] obtain evs where "trace s' = trace s1 @ evs" by blast
    then show ?thesis
      using NewDatafile_Inr(3) [OF n [unfolded Inr]] by simp
  qed
qed

lemma open_each_first:
  assumes "open_each path mk mv (i # ids) dfs s = (r, s')"
  shows "\<exists>evs. trace s' = trace s @ EvOpen (Join path (defaultDatafileFilename i)) True # evs"
proof -
  obtain r1 s1 where n: "NewDatafile path i True mk mv s = (r1, s1)" by (metis surj_pair)
  show ?thesis
  proof (cases r1)
    case (Inl e)
    then show ?thesis
      using assms n NewDatafile_Inl(2) [of path i True mk mv s e s1] by auto
  next
    case (Inr f)
    then have "open_each path mk mv ids (AList.update i f dfs) s1 = (r, s')"
      using assms n by simp
    from open_each_trace [OF this] obtain evs where "trace s' = trace s1 @ evs" by blast
    then show ?thesis
      using NewDatafile_Inr(3) [OF n [unfolded Inr]] by simp
  qed
qed

lemma all2_nonneg:
  "list_all2 (\<lambda>fn p. parsed_id fn = Inr p) fns ps \<Longrightarrow>
   \<forall>fn \<in> set fns. \<forall>i. parsed_id fn = Inr i \<longrightarrow> 0 \<le> i \<Longrightarrow> \<forall>p \<in> set ps. 0 \<le> p"
  by (induction rule: list_all2_induct) auto

text \<open>
  C8. \<open>ParseIds\<close> makes its slice with length \<open>n\<close> and appends the parsed ids, so for
  \<open>n\<close> segment file names (names whose stem parses, to an id that is not negative, as
  every id the engine gives a segment is) it returns a sorted slice of length \<open>2n\<close> whose
  first \<open>n\<close> elements are \<open>0\<close>. Consequently, when the directory holds at least one
  segment file, the first call \<open>loadDatafiles\<close> makes on the segment files is the
  read-only opening of segment \<open>0\<close>.
\<close>

theorem ParseIds_leading_zeros:
  assumes "ParseIds fns = Inr ids"
    and "\<forall>fn \<in> set fns. \<forall>i. parsed_id fn = Inr i \<longrightarrow> 0 \<le> i"
  shows "length ids = 2 * length fns \<and> sorted ids
         \<and> take (length fns) ids = replicate (length fns) 0
         \<and> (fns \<noteq> [] \<and> GetDatafiles path s = fns \<longrightarrow>
              (\<exists>evs. trace (snd (loadDatafiles path mk mv s))
                       = trace s @ EvOpen (Join path (defaultDatafileFilename 0)) True # evs))"
proof -
  from assms(1) obtain ps where ids: "ids = sort (replicate (length fns) 0 @ ps)"
    and len: "length ps = length fns"
    and all: "list_all2 (\<lambda>fn p. parsed_id fn = Inr p) fns ps"
    by (rule ParseIds_Inr)
  have nonneg: "\<forall>p \<in> set ps. 0 \<le> p"
    using all assms(2) by (rule all2_nonneg)
  have ids': "ids = replicate (length fns) 0 @ sort ps"
    unfolding ids using nonneg by (rule sort_zeros)
  have 1: "length ids = 2 * length fns"
    by (simp add: ids len)
  have 2: "sorted ids"
    by (simp add: ids)
  have 3: "take (length fns) ids = replicate (length fns) 0"
    by (simp add: ids')
  have 4: "\<exists>evs. trace (snd (loadDatafiles path mk mv s))
                   = trace s @ EvOpen (Join path (defaultDatafileFilename 0)) True # evs"
    if "fns \<noteq> [] \<and> GetDatafiles path s = fns"
  proof -
    from that obtain n where n: "length fns = Suc n" by (cases fns) auto
    have c: "ids = 0 # (replicate n 0 @ sort ps)"
      by (simp add: ids' n)
    obtain r s' where o: "open_each path mk mv ids [] s = (r, s')" by (metis surj_pair)
    from open_each_first [OF o [unfolded c]] obtain evs where
      "trace s' = trace s @ EvOpen (Join path (defaultDatafileFilename 0)) True # evs" by blast
    moreover have "snd (loadDatafiles path mk mv s) = s'"
    proof -
      have g: "GetDatafiles path s = fns" using that by simp
      show ?thesis
        unfolding loadDatafiles_def g assms(1) by (simp add: o split: sum.splits)
    qed
    ultimately show ?thesis by simp
  qed
  show ?thesis
  proof (intro conjI impI)
    show "length ids = 2 * length fns" by (rule 1)
    show "sorted ids" by (rule 2)
    show "take (length fns) ids = replicate (length fns) 0" by (rule 3)
    show "\<exists>evs. trace (snd (loadDatafiles path mk mv s))
                   = trace s @ EvOpen (Join path (defaultDatafileFilename 0)) True # evs"
      if "fns \<noteq> [] \<and> GetDatafiles path s = fns"
      using that by (rule 4)
  qed
qed

lemma GetDatafiles_single:
  "GetDatafiles ''/tmp/db'' (s\<lparr>files := [(''/tmp/db/000000000.data'', bytes)]\<rparr>)
     = [''/tmp/db/000000000.data'']"
  by (simp add: GetDatafiles_def suffix_to_prefix)

lemma parsed_id_0: "parsed_id ''/tmp/db/000000000.data'' = Inr 0"
  by (simp add: parsed_id_def Base_def Ext_def TrimSuffix_def ParseInt_def digit_val_def
        suffix_to_prefix Let_def)

lemma parsed_id_1: "parsed_id ''/tmp/db/000000001.data'' = Inr 1"
  by (simp add: parsed_id_def Base_def Ext_def TrimSuffix_def ParseInt_def digit_val_def
        suffix_to_prefix Let_def)

lemma ParseIds_single: "ParseIds [''/tmp/db/000000000.data''] = Inr [0, 0]"
  using parsed_id_0 by (simp add: ParseIds_def parsed_id_def)

lemma ParseIds_two:
  "ParseIds [''/tmp/db/000000000.data'', ''/tmp/db/000000001.data''] = Inr [0, 0, 0, 1]"
  using parsed_id_0 parsed_id_1 by (simp add: ParseIds_def parsed_id_def eval_nat_numeral)


lemma ParseIds_only1: "ParseIds [''/tmp/db/000000001.data''] = Inr [0, 1]"
  using parsed_id_1 by (simp add: ParseIds_def parsed_id_def)

lemma GetDatafiles_only1: "GetDatafiles ''/tmp/db'' s_only1 = [''/tmp/db/000000001.data'']"
  by (simp add: GetDatafiles_def suffix_to_prefix s_only1_def)

theorem ParseIds_leading_zeros_witness:
  "ParseIds [''/tmp/db/000000001.data''] = Inr [0, 1]
   \<and> parsed_id ''/tmp/db/000000001.data'' = Inr 1
   \<and> GetDatafiles ''/tmp/db'' s_only1 = [''/tmp/db/000000001.data'']
   \<and> (\<exists>evs. trace (snd (loadDatafiles ''/tmp/db'' 64 65536 s_only1))
               = EvOpen ''/tmp/db/000000000.data'' True # evs)
   \<and> fst (loadDatafiles ''/tmp/db'' 64 65536 s_only1) = Inl (ErrNotExist ''/tmp/db/000000000.data'')"
proof -
  have nn: "\<forall>fn \<in> set [''/tmp/db/000000001.data'']. \<forall>i. parsed_id fn = Inr i \<longrightarrow> 0 \<le> i"
    by (simp add: parsed_id_1)
  have tr: "trace s_only1 = []"
    by (simp add: s_only1_def)
  have e: "fst (loadDatafiles ''/tmp/db'' 64 65536 s_only1) = Inl (ErrNotExist ''/tmp/db/000000000.data'')"
    by (simp add: loadDatafiles_def GetDatafiles_only1 ParseIds_only1 NewDatafile_def name0' Let_def)
       (simp add: s_only1_def Exists_def emit_def)
  show ?thesis
    using ParseIds_leading_zeros [OF ParseIds_only1 nn, of "''/tmp/db''" s_only1 64 65536]
      GetDatafiles_only1 ParseIds_only1 parsed_id_1 e
    by (simp add: tr name0')
qed


section \<open>Replay, and the failing inputs\<close>

lemma ucast_of_nat_32_64:
  assumes "n \<le> unat (mk :: 32 word)"
  shows "(ucast (of_nat n :: 32 word) :: 64 word) = of_nat n"
  by (metis assms le_unat_uoi of_nat_unat)

lemma unat_of_nat_64: "n < 2 ^ 63 \<Longrightarrow> unat (of_nat n :: 64 word) = n"
  by (simp add: unat_of_nat)

lemma sint_of_nat_64: "n < 2 ^ 63 \<Longrightarrow> sint (of_nat n :: 64 word) = int n"
proof -
  assume a: "n < 2 ^ 63"
  then have "int n < 2 ^ 63"
    by (metis of_nat_less_iff of_nat_numeral of_nat_power)
  moreover have "- (2 ^ 63) \<le> int n" by simp
  ultimately have "signed_take_bit 63 (int n) = int n"
    by (rule signed_take_bit_int_eq_self [rotated])
  then show ?thesis
    by (simp add: signed_of_nat)
qed

lemma getKeyValueSizes_prefix:
  "getKeyValueSizes (PutUint32 a @ PutUint64 b @ tl0) mk mv
     = (if a > mk \<or> b > mv \<or> a = 0 then Inl errInvalidKeyOrValueSize else Inr (a, b))"
  by (simp add: getKeyValueSizes_def keySize_def valueSize_def Uint64_PutUint64_append Let_def)

lemma Decode_EncodeBytes:
  assumes "0 < length (Key e)" "length (Key e) \<le> unat mk" "length (Value e) \<le> unat mv"
    and "length (Key e) + length (Value e) + 16 < 2 ^ 63"
  shows "Decode (EncodeBytes e @ rest) mk mv
           = (Inr (zeroEntry\<lparr>Key := Key e, Value := Value e, Checksum := Checksum e\<rparr>,
                   int (length (EncodeBytes e))),
              length (EncodeBytes e))"
proof -
  let ?k = "length (Key e)" and ?v = "length (Value e)"
  have k: "unat (of_nat ?k :: 32 word) = ?k"
    using assms(2) by (rule unat_of_nat32)
  have v: "unat (of_nat ?v :: 64 word) = ?v"
    using assms(3) by (rule unat_of_nat64)
  have hd12: "take (keySize + valueSize) (EncodeBytes e @ rest)
                = PutUint32 (of_nat ?k) @ PutUint64 (of_nat ?v) @ []"
    by (simp add: EncodeBytes_def keySize_def valueSize_def)
  have g: "getKeyValueSizes (take (keySize + valueSize) (EncodeBytes e @ rest)) mk mv
             = Inr (of_nat ?k, of_nat ?v)"
    unfolding hd12 getKeyValueSizes_prefix
    using getKeyValueSizes_EncodeBytes [OF assms(1-3)]
    by (simp add: EncodeBytes_def getKeyValueSizes_prefix split: if_splits)
  have w: "(ucast (of_nat ?k :: 32 word) + of_nat ?v + 4 :: 64 word) = of_nat (?k + ?v + 4)"
    by (simp add: ucast_of_nat_32_64 [OF assms(2)])
  have m: "unat (ucast (of_nat ?k :: 32 word) + of_nat ?v + 4 :: 64 word) = ?k + ?v + 4"
    unfolding w using assms(4) by (intro unat_of_nat_64) simp
  have w2: "(12 + ucast (of_nat ?k :: 32 word) + of_nat ?v + 4 :: 64 word) = of_nat (?k + ?v + 16)"
    by (simp add: ucast_of_nat_32_64 [OF assms(2)])
  have n: "sint (12 + ucast (of_nat ?k :: 32 word) + of_nat ?v + 4 :: 64 word)
             = int (length (EncodeBytes e))"
  proof -
    have "sint (of_nat (?k + ?v + 16) :: 64 word) = int (?k + ?v + 16)"
      using assms(4) by (intro sint_of_nat_64) simp
    then show ?thesis
      unfolding w2 by (simp only: length_EncodeBytes add.commute add.left_commute)
  qed
  have rest': "drop (keySize + valueSize) (EncodeBytes e @ rest)
                 = Key e @ Value e @ PutUint32 (Checksum e) @ rest"
    by (simp add: EncodeBytes_def keySize_def valueSize_def)
  have d: "decodeWithoutPrefix (take (?k + ?v + 4) (Key e @ Value e @ PutUint32 (Checksum e) @ rest))
             (of_nat ?k) zeroEntry
           = Some (zeroEntry\<lparr>Key := Key e, Value := Value e, Checksum := Checksum e\<rparr>)"
    by (simp add: decodeWithoutPrefix_def k checksumSize_def)
  have "Key e \<noteq> []"
    using assms(1) by auto
  then have ne: "EncodeBytes e @ rest \<noteq> []" "\<not> length (EncodeBytes e @ rest) < keySize + valueSize"
    by (simp_all add: EncodeBytes_def keySize_def valueSize_def)
  have lt: "\<not> length (Key e @ Value e @ PutUint32 (Checksum e) @ rest) < ?k + ?v + 4"
    by simp
  have fin: "keySize + valueSize + (?k + ?v + 4) = length (EncodeBytes e)"
    by (simp add: keySize_def valueSize_def length_EncodeBytes)
  show ?thesis
    by (simp only: Decode_def ne if_False g sum.case prod.case Let_def rest' m n lt d
          option.case fin)
qed


lemma Exists_single:
  assumes "files s = [(''/tmp/db/000000000.data'', bytes)]"
  shows "Exists s ''/tmp/db/000000000.data''" "\<not> Exists s ''/tmp/db/index''"
    "content s ''/tmp/db/000000000.data'' = bytes"
  using assms by (simp_all add: Exists_def content_def)

lemma NewDatafile_single:
  assumes "files s = [(''/tmp/db/000000000.data'', bytes)]"
  shows "NewDatafile ''/tmp/db'' 0 ro (MaxKeySize cfg) (MaxValueSize cfg) s
           = (Inr (seg0 bytes (\<not> ro) 0 cfg), emit (EvOpen ''/tmp/db/000000000.data'' ro) s)"
  using assms
  by (simp add: NewDatafile_def name0' Let_def Exists_def content_def emit_def seg0_def)

lemma GetDatafiles_single':
  assumes "files s = [(''/tmp/db/000000000.data'', bytes)]"
  shows "GetDatafiles ''/tmp/db'' s = [''/tmp/db/000000000.data'']"
  using assms by (simp add: GetDatafiles_def suffix_to_prefix)

lemma loadDatafiles_single:
  assumes "files s = [(''/tmp/db/000000000.data'', bytes)]"
  shows "loadDatafiles ''/tmp/db'' (MaxKeySize cfg) (MaxValueSize cfg) s
           = (Inr ([(0, seg0 bytes False 0 cfg)], 0),
              emit (EvOpen ''/tmp/db/000000000.data'' True)
                (emit (EvOpen ''/tmp/db/000000000.data'' True) s))"
proof -
  have f1: "files (emit (EvOpen ''/tmp/db/000000000.data'' True) s)
              = [(''/tmp/db/000000000.data'', bytes)]"
    using assms by simp
  show ?thesis
    by (simp add: loadDatafiles_def GetDatafiles_single' [OF assms] ParseIds_single
          NewDatafile_single [OF assms] NewDatafile_single [OF f1])
qed

lemma loadIndex_single:
  assumes "files s = [(''/tmp/db/000000000.data'', bytes)]"
  shows "loadIndex ''/tmp/db'' (MaxKeySize cfg) [(0, seg0 bytes False 0 cfg)] s
           = (case Decode bytes (MaxKeySize cfg) (MaxValueSize cfg) of
                (Inl err, used) \<Rightarrow>
                  if err = EOF then Inr (New, [(0, seg0 bytes False used cfg)]) else Inl err
              | (Inr (e, n), used) \<Rightarrow>
                  Inr (if length (Value e) = 0 then Delete_key (Key e) New
                       else Insert (Key e) \<lparr>FileID = 0, ItemOffset = 0, ItemSize = n\<rparr> New,
                       [(0, seg0 bytes False used cfg)]))"
  using Exists_single [OF assms]
  by (simp add: loadIndex_def Load_def Join_def getSortedDatafiles_def Read_def seg0_def
        FileID_of_def Let_def split: prod.splits sum.splits)

lemma reopen_single:
  assumes "files s = [(''/tmp/db/000000000.data'', bytes)]"
  shows "reopen ''/tmp/db'' cfg s
           = (case loadIndex ''/tmp/db'' (MaxKeySize cfg) [(0, seg0 bytes False 0 cfg)] s of
                Inl err \<Rightarrow>
                  (Inl err, emit (EvOpen ''/tmp/db/000000000.data'' True)
                              (emit (EvOpen ''/tmp/db/000000000.data'' True) s))
              | Inr (tr, dfs) \<Rightarrow>
                  (Inr \<lparr>b_cfg = cfg, b_path = ''/tmp/db'', b_curr = seg0 bytes True 0 cfg,
                         b_datafiles = dfs, b_t = tr\<rparr>,
                   emit (EvOpen ''/tmp/db/000000000.data'' False)
                     (emit (EvOpen ''/tmp/db/000000000.data'' True)
                        (emit (EvOpen ''/tmp/db/000000000.data'' True) s))))"
proof -
  let ?s1 = "emit (EvOpen ''/tmp/db/000000000.data'' True)
               (emit (EvOpen ''/tmp/db/000000000.data'' True) s)"
  have f1: "files ?s1 = [(''/tmp/db/000000000.data'', bytes)]"
    using assms by simp
  have li: "loadIndex ''/tmp/db'' (MaxKeySize cfg) [(0, seg0 bytes False 0 cfg)] ?s1
              = loadIndex ''/tmp/db'' (MaxKeySize cfg) [(0, seg0 bytes False 0 cfg)] s"
    by (simp add: loadIndex_single [OF f1] loadIndex_single [OF assms])
  show ?thesis
    by (simp add: reopen_def loadDatafiles_single [OF assms] li NewDatafile_single [OF f1]
          split: sum.splits)
qed


lemma length_rec [simp]: "length rec_a = 18" "length rec_b = 18"
  by (simp_all add: rec_a_def rec_b_def length_EncodeBytes NewEntry_def)

lemma EncodeLen_rec: "EncodeLen (NewEntry [0x61] [0x31]) = 18" "EncodeLen (NewEntry [0x62] [0x32]) = 18"
  by (simp_all add: EncodeLen_def NewEntry_def keySize_def valueSize_def checksumSize_def)

lemma Put_one: "Put b_fresh s_fresh [0x61] [0x31] = (None, b_one, s_one)"
proof -
  have ok: "\<not> Size (b_curr b_fresh) > MaxDatafileSize (b_cfg b_fresh)"
      "df_w (b_curr b_fresh)" "\<not> df_closed (b_curr b_fresh)" "\<not> df_werr (b_curr b_fresh)"
      "faults s_fresh = []"
    by (simp_all add: b_fresh_def s_fresh_def cfg_ex_def Size_def)
  have lim: "\<not> (of_nat (length [0x61 :: byte]) :: 32 word) > MaxKeySize (b_cfg b_fresh)"
     "\<not> (of_nat (length [0x31 :: byte]) :: 64 word) > MaxValueSize (b_cfg b_fresh)"
    by (simp_all add: b_fresh_def cfg_ex_def)
  show ?thesis
    using lim
    by (simp add: Put_def put_keep_ok [OF ok] EncodeLen_rec rec_a_def [symmetric])
       (simp add: b_fresh_def s_fresh_def b_one_def s_one_def emit_def content_def
          Insert_def FileID_of_def)
qed

lemma Put_two: "Put b_one s_one [0x62] [0x32] = (None, b_two, s_two)"
proof -
  have ok: "\<not> Size (b_curr b_one) > MaxDatafileSize (b_cfg b_one)"
      "df_w (b_curr b_one)" "\<not> df_closed (b_curr b_one)" "\<not> df_werr (b_curr b_one)"
      "faults s_one = []"
    by (simp_all add: b_one_def b_fresh_def s_one_def cfg_ex_def Size_def)
  have lim: "\<not> (of_nat (length [0x62 :: byte]) :: 32 word) > MaxKeySize (b_cfg b_one)"
     "\<not> (of_nat (length [0x32 :: byte]) :: 64 word) > MaxValueSize (b_cfg b_one)"
    by (simp_all add: b_one_def b_fresh_def cfg_ex_def)
  show ?thesis
    using lim
    by (simp add: Put_def put_keep_ok [OF ok] EncodeLen_rec rec_b_def [symmetric])
       (simp add: b_fresh_def b_one_def s_one_def b_two_def s_two_def emit_def content_def
          Insert_def FileID_of_def)
qed

lemma Get_two: "Get b_two s_two [0x62] = Inr [0x32]"
proof -
  have c: "content s_two (df_name (b_curr b_two)) = rec_a @ EncodeBytes (NewEntry [0x62] [0x32])"
    by (simp add: content_def s_two_def b_two_def b_fresh_def rec_b_def)
  have r: "ReadAt (b_curr b_two) s_two (int (length rec_a))
             (int (length (EncodeBytes (NewEntry [0x62] [0x32]))))
           = Inr \<lparr>Checksum = Checksum (NewEntry [0x62] [0x32]), Key = Key (NewEntry [0x62] [0x32]),
                  Offset = 0, Value = Value (NewEntry [0x62] [0x32])\<rparr>"
    by (rule ReadAt_written [OF _ _ c]) (simp_all add: b_two_def b_fresh_def NewEntry_def)
  have l: "int (length (EncodeBytes (NewEntry [0x62] [0x32]))) = 18"
    using length_rec(2) by (simp add: rec_b_def)
  show ?thesis
    using r unfolding l
    by (simp add: Get_def Search_def b_two_def b_fresh_def FileID_of_def NewEntry_def)
qed

lemma Close_two:
  "fst (Close b_two s_two) = None"
  "files (snd (snd (Close b_two s_two)))
     = [(''/tmp/db/000000000.data'', rec_a @ rec_b), (''/tmp/db/index'', writeIndex (b_t b_two))]"
  "faults (snd (snd (Close b_two s_two))) = []"
  by (simp_all add: Close_def Save_def Close_df_def Sync_df_def Join_def
        b_two_def b_fresh_def s_two_def)

lemma Decode_rec_a:
  "Decode (rec_a @ rest) 64 65536
     = (Inr (\<lparr>Checksum = ChecksumIEEE [0x31], Key = [0x61], Offset = 0, Value = [0x31]\<rparr>, 18), 18)"
  unfolding rec_a_def
  using Decode_EncodeBytes [of "NewEntry [0x61] [0x31]" 64 65536 rest]
  by (simp add: NewEntry_def zeroEntry_def length_EncodeBytes)

text \<open>
  C1 fails on the code. The loop of \<open>loadIndex\<close> makes one \<open>Read\<close> per segment, not one
  per record. After \<open>put("a", "1")\<close> and \<open>put("b", "2")\<close> on a new database, \<open>get("b")\<close>
  is \<open>"2"\<close>; after \<open>close\<close>, deleting \<open>index\<close> and opening again, the replayed directory
  holds \<open>"a"\<close> only and \<open>get("b")\<close> is key-not-found.
\<close>

theorem replay_drops_second_record:
  "Open ''/tmp/db'' cfg_ex disk_empty = (Inr b_fresh, s_fresh)
   \<and> Put b_fresh s_fresh [0x61] [0x31] = (None, b_one, s_one)
   \<and> Put b_one s_one [0x62] [0x32] = (None, b_two, s_two)
   \<and> Get b_two s_two [0x62] = Inr [0x32]
   \<and> fst (Close b_two s_two) = None
   \<and> fst (close_replay b_two s_two) = Inr b_replayed
   \<and> Get b_replayed (snd (close_replay b_two s_two)) [0x62] = Inl ErrKeyNotFound"
proof -
  obtain r bc sc where c: "Close b_two s_two = (r, bc, sc)"
    by (metis prod_cases3)
  have fs: "files sc = [(''/tmp/db/000000000.data'', rec_a @ rec_b),
                        (''/tmp/db/index'', writeIndex (b_t b_two))]"
    using Close_two(2) c by simp
  let ?s = "sc\<lparr>files := AList.delete ''/tmp/db/index'' (files sc)\<rparr>"
  have f: "files ?s = [(''/tmp/db/000000000.data'', rec_a @ rec_b)]"
    by (simp add: fs)
  have bp: "b_path b_two = ''/tmp/db''" "b_cfg b_two = cfg_ex"
    by (simp_all add: b_two_def b_fresh_def)
  have cr: "close_replay b_two s_two = reopen ''/tmp/db'' cfg_ex ?s"
    by (simp add: close_replay_def c Open_def Join_def bp)
  have ro: "fst (reopen ''/tmp/db'' cfg_ex ?s) = Inr b_replayed"
    unfolding reopen_single [OF f] loadIndex_single [OF f]
    by (simp add: cfg_ex_def Decode_rec_a Insert_def New_def b_replayed_def)
  have g: "Get b_replayed s' [0x62] = Inl ErrKeyNotFound" for s'
    by (simp add: Get_def Search_def b_replayed_def)
  show ?thesis
    using Open_fresh Put_one Put_two Get_two Close_two(1) ro g by (simp add: cr)
qed


lemma fresh_ok:
  "\<not> Size (b_curr b_fresh) > MaxDatafileSize (b_cfg b_fresh)"
  "df_w (b_curr b_fresh)" "\<not> df_closed (b_curr b_fresh)" "\<not> df_werr (b_curr b_fresh)"
  "faults s_fresh = []"
  by (simp_all add: b_fresh_def s_fresh_def cfg_ex_def Size_def)

lemma Put_empty_key: "Put b_fresh s_fresh [] [0x31] = (None, b_empty_key, s_empty_key)"
proof -
  have lim: "\<not> (of_nat (length ([] :: byte list)) :: 32 word) > MaxKeySize (b_cfg b_fresh)"
     "\<not> (of_nat (length [0x31 :: byte]) :: 64 word) > MaxValueSize (b_cfg b_fresh)"
    by (simp_all add: b_fresh_def cfg_ex_def)
  have n: "EncodeLen (NewEntry [] [0x31]) = 17"
    by (simp add: EncodeLen_def NewEntry_def keySize_def valueSize_def checksumSize_def)
  show ?thesis
    using lim
    by (simp add: Put_def put_keep_ok [OF fresh_ok] n rec_empty_key_def [symmetric])
       (simp add: b_fresh_def s_fresh_def b_empty_key_def s_empty_key_def emit_def content_def
          Insert_def FileID_of_def)
qed

lemma Decode_empty_key:
  "Decode (rec_empty_key @ rest) mk mv = (Inl errInvalidKeyOrValueSize, 12)"
proof -
  have t: "take (keySize + valueSize) (rec_empty_key @ rest) = PutUint32 0 @ PutUint64 1 @ []"
    by (simp add: rec_empty_key_def EncodeBytes_def NewEntry_def keySize_def valueSize_def)
  have ne: "rec_empty_key @ rest \<noteq> []" "\<not> length (rec_empty_key @ rest) < keySize + valueSize"
    by (simp_all add: rec_empty_key_def EncodeBytes_def NewEntry_def keySize_def valueSize_def)
  show ?thesis
    by (simp only: Decode_def ne if_False t getKeyValueSizes_prefix)
       (simp add: keySize_def valueSize_def)
qed

lemma Get_empty_key: "Get b_empty_key s_empty_key [] = Inr []"
proof -
  have r: "readable (b_curr b_empty_key) s_empty_key 0 17 rec_empty_key"
    by (simp add: readable_def b_empty_key_def b_fresh_def s_empty_key_def content_def
          file_ReadAt_def rec_empty_key_def length_EncodeBytes NewEntry_def)
  have h: "Uint32 (take 4 rec_empty_key) = 0"
    by (simp add: rec_empty_key_def EncodeBytes_def NewEntry_def)
  have l: "int (length rec_empty_key) = 17"
    by (simp add: rec_empty_key_def length_EncodeBytes NewEntry_def)
  have d: "DecodeEntry rec_empty_key zeroEntry (df_maxKeySize (b_curr b_empty_key))
              (df_maxValueSize (b_curr b_empty_key)) = Inl (Wrap errInvalidKeyOrValueSize)"
    using l h by (intro DecodeEntry_invalid) simp_all
  have "ReadAt (b_curr b_empty_key) s_empty_key 0 17 = Inr zeroEntry"
    using r l by (simp add: ReadAt_def readable_def d)
  then show ?thesis
    by (simp add: Get_def Search_def b_empty_key_def b_fresh_def FileID_of_def zeroEntry_def
          ChecksumIEEE_Nil)
qed

text \<open>
  C3 fails on the code for the empty key: \<open>Put\<close> has no check for it. On a new database
  \<open>put("", "1")\<close> returns a nil error, enters the empty key into the directory and
  appends a record with \<open>key_len = 0\<close>, which the codec's own \<open>Decode\<close> rejects as
  invalid: \<open>get("")\<close> then returns the empty value (\<open>ReadAt\<close> drops the decode error), and
  after \<open>close\<close> and the loss of the snapshot the engine refuses to open.
\<close>

theorem Put_accepts_empty_key:
  "Put b_fresh s_fresh [] [0x31] = (None, b_empty_key, s_empty_key)
   \<and> Has b_empty_key []
   \<and> content s_empty_key ''/tmp/db/000000000.data'' = EncodeBytes (NewEntry [] [0x31])
   \<and> fst (Decode (EncodeBytes (NewEntry [] [0x31])) 64 65536) = Inl errInvalidKeyOrValueSize
   \<and> Get b_empty_key s_empty_key [] = Inr []
   \<and> fst (close_replay b_empty_key s_empty_key) = Inl errInvalidKeyOrValueSize"
proof -
  have 1: "Has b_empty_key []"
    by (simp add: Has_def Search_def b_empty_key_def)
  have 2: "content s_empty_key ''/tmp/db/000000000.data'' = EncodeBytes (NewEntry [] [0x31])"
    by (simp add: content_def s_empty_key_def rec_empty_key_def)
  have 3: "fst (Decode (EncodeBytes (NewEntry [] [0x31])) 64 65536) = Inl errInvalidKeyOrValueSize"
    using Decode_empty_key [of "[]" 64 65536] by (simp add: rec_empty_key_def)
  obtain r bc sc where c: "Close b_empty_key s_empty_key = (r, bc, sc)"
    by (metis prod_cases3)
  have fs: "files sc = [(''/tmp/db/000000000.data'', rec_empty_key),
                        (''/tmp/db/index'', writeIndex (b_t b_empty_key))]"
    using c
    by (auto simp: Close_def Save_def Close_df_def Sync_df_def Join_def
          b_empty_key_def b_fresh_def s_empty_key_def)
  let ?s = "sc\<lparr>files := AList.delete ''/tmp/db/index'' (files sc)\<rparr>"
  have f: "files ?s = [(''/tmp/db/000000000.data'', rec_empty_key)]"
    by (simp add: fs)
  have bp: "b_path b_empty_key = ''/tmp/db''" "b_cfg b_empty_key = cfg_ex"
    by (simp_all add: b_empty_key_def b_fresh_def)
  have cr: "close_replay b_empty_key s_empty_key = reopen ''/tmp/db'' cfg_ex ?s"
    by (simp add: close_replay_def c Open_def Join_def bp)
  have 4: "fst (reopen ''/tmp/db'' cfg_ex ?s) = Inl errInvalidKeyOrValueSize"
    unfolding reopen_single [OF f] loadIndex_single [OF f]
    using Decode_empty_key [of "[]"] by simp
  show ?thesis
    using Put_empty_key 1 2 3 Get_empty_key 4 by (simp add: cr)
qed

text \<open>
  C4 fails on the code. With \<open>"a"\<close> in the directory and the next append failing,
  \<open>DeleteAll\<close> returns the write error and the directory is empty all the same (the
  assignment of a new tree is not guarded by the error), while no tombstone has reached
  the segment. \<open>Delete\<close> on the same state returns the error and leaves the directory as
  it was.
\<close>

theorem DeleteAll_failure_empties_directory:
  "Get b_one s_one [0x61] = Inr [0x31]
   \<and> DeleteAll b_one (s_one\<lparr>faults := [True]\<rparr>)
       = (Some (Wrap ErrWrite),
          b_one\<lparr>b_curr := (b_curr b_one)\<lparr>df_werr := True\<rparr>, b_t := New\<rparr>,
          s_one\<lparr>faults := []\<rparr>)
   \<and> b_t b_one = [([0x61], \<lparr>FileID = 0, ItemOffset = 0, ItemSize = 18\<rparr>)]
   \<and> Delete b_one (s_one\<lparr>faults := [True]\<rparr>) [0x61]
       = (Some (Wrap ErrWrite), b_one\<lparr>b_curr := (b_curr b_one)\<lparr>df_werr := True\<rparr>\<rparr>,
          s_one\<lparr>faults := []\<rparr>)"
proof -
  have c: "content s_one (df_name (b_curr b_one)) = [] @ EncodeBytes (NewEntry [0x61] [0x31])"
    by (simp add: content_def s_one_def b_one_def b_fresh_def rec_a_def)
  have r: "ReadAt (b_curr b_one) s_one (int (length ([] :: byte list)))
             (int (length (EncodeBytes (NewEntry [0x61] [0x31]))))
           = Inr \<lparr>Checksum = Checksum (NewEntry [0x61] [0x31]), Key = Key (NewEntry [0x61] [0x31]),
                  Offset = 0, Value = Value (NewEntry [0x61] [0x31])\<rparr>"
    by (rule ReadAt_written [OF _ _ c]) (simp_all add: b_one_def b_fresh_def NewEntry_def)
  have l: "int (length (EncodeBytes (NewEntry [0x61] [0x31]))) = 18"
    using length_rec(1) by (simp add: rec_a_def)
  have g: "Get b_one s_one [0x61] = Inr [0x31]"
    using r unfolding l
    by (simp add: Get_def Search_def b_one_def b_fresh_def FileID_of_def NewEntry_def)
  have p: "put b_one (s_one\<lparr>faults := [True]\<rparr>) k []
             = (Inl (Wrap ErrWrite), b_one\<lparr>b_curr := (b_curr b_one)\<lparr>df_werr := True\<rparr>\<rparr>,
                s_one\<lparr>faults := []\<rparr>)" for k
    by (simp add: put_def Size_def Write_def Encode_def b_one_def b_fresh_def cfg_ex_def s_one_def)
  have d: "DeleteAll b_one (s_one\<lparr>faults := [True]\<rparr>)
       = (Some (Wrap ErrWrite),
          b_one\<lparr>b_curr := (b_curr b_one)\<lparr>df_werr := True\<rparr>, b_t := New\<rparr>,
          s_one\<lparr>faults := []\<rparr>)"
  proof -
    have "map fst (ForEach (b_t b_one)) = [[0x61]]"
      by (simp add: ForEach_def b_one_def)
    then show ?thesis
      by (simp add: DeleteAll_def p)
  qed
  have t: "b_t b_one = [([0x61], \<lparr>FileID = 0, ItemOffset = 0, ItemSize = 18\<rparr>)]"
    by (simp add: b_one_def)
  have e: "Delete b_one (s_one\<lparr>faults := [True]\<rparr>) [0x61]
       = (Some (Wrap ErrWrite), b_one\<lparr>b_curr := (b_curr b_one)\<lparr>df_werr := True\<rparr>\<rparr>,
          s_one\<lparr>faults := []\<rparr>)"
    by (simp add: Delete_def p)
  from g d t e show ?thesis by simp
qed

lemma Open_again: "fst (Open ''/tmp/db'' cfg_ex s_fresh) = Inr b_again"
proof -
  have f: "files s_fresh = [(''/tmp/db/000000000.data'', [])]"
    by (simp add: s_fresh_def)
  show ?thesis
    unfolding Open_def reopen_single [OF f] loadIndex_single [OF f]
    by (simp add: Decode_def b_again_def New_def)
qed

text \<open>
  C2 as stated fails after the second \<open>Open\<close> of a database: the directory the first
  \<open>Open\<close> leaves holds segment \<open>0\<close>, and the second \<open>Open\<close> enters segment \<open>0\<close> into the
  frozen segments and opens it as the active segment too, so the active id is not
  strictly greater.
\<close>

theorem frozen_lt_active_counterexample:
  "fst (Open ''/tmp/db'' cfg_ex disk_empty) = Inr b_fresh
   \<and> snd (Open ''/tmp/db'' cfg_ex disk_empty) = s_fresh
   \<and> fst (Open ''/tmp/db'' cfg_ex s_fresh) = Inr b_again
   \<and> map fst (b_datafiles b_again) = [0]
   \<and> FileID_of (b_curr b_again) = 0
   \<and> \<not> frozen_lt_active b_again"
  using Open_fresh Open_again
  by (simp add: b_again_def seg0_def FileID_of_def frozen_lt_active_def)

theorem frozen_ids_le_active_witness:
  "frozen_le_active b_again
   \<and> frozen_le_active (fst (snd (Put b_again s_fresh [0x61] [0x31])))
   \<and> frozen_le_active (fst (snd (Delete b_again s_fresh [0x61])))
   \<and> frozen_le_active (fst (snd (DeleteAll b_again s_fresh)))
   \<and> frozen_le_active (fst (snd (Close b_again s_fresh)))"
proof -
  obtain s1 where o: "reopen ''/tmp/db'' cfg_ex s_fresh = (Inr b_again, s1)"
    using Open_again by (metis Open_def prod.collapse)
  have r: "- (2 ^ 63) \<le> df_id (b_curr b_again)" "df_id (b_curr b_again) + 1 < 2 ^ 63"
    "df_id (b_curr b_again) + int (length (b_t b_again)) < 2 ^ 63"
    by (simp_all add: b_again_def seg0_def)
  note t = frozen_ids_le_active [of "''/tmp/db''" cfg_ex s_fresh b_again s1 b_again s_fresh
      "[0x61]" "[0x31]"]
  have a: "frozen_le_active b_again"
    using t o by simp
  show ?thesis
    using t a r by simp
qed


section \<open>Segment names, and the state of an open engine\<close>

lemma digit_val_nth: "d < 10 \<Longrightarrow> digit_val (''0123456789'' ! d) = Some d"
proof -
  assume "d < 10"
  then consider "d = 0" | "d = 1" | "d = 2" | "d = 3" | "d = 4" | "d = 5" | "d = 6" | "d = 7"
    | "d = 8" | "d = 9"
    by atomize_elim arith
  then show ?thesis
    by cases (simp_all add: digit_val_def)
qed

lemma digit_nth_plain:
  "d < 10 \<Longrightarrow> ''0123456789'' ! d \<noteq> CHR ''/'' \<and> ''0123456789'' ! d \<noteq> CHR ''.''
     \<and> ''0123456789'' ! d \<noteq> CHR ''+'' \<and> ''0123456789'' ! d \<noteq> CHR ''-''"
proof -
  assume "d < 10"
  then consider "d = 0" | "d = 1" | "d = 2" | "d = 3" | "d = 4" | "d = 5" | "d = 6" | "d = 7"
    | "d = 8" | "d = 9"
    by atomize_elim arith
  then show ?thesis
    by cases simp_all
qed

lemma parse_uint_append:
  "parse_uint (xs @ ys) acc
     = (case parse_uint xs acc of None \<Rightarrow> None | Some a \<Rightarrow> parse_uint ys a)"
  by (induction xs arbitrary: acc) (auto split: option.splits)

lemma digits_facts:
  "parse_uint (digits n) 0 = Some n \<and> digits n \<noteq> [] \<and> (\<forall>c \<in> set (digits n). plain c)"
proof (induction n rule: digits.induct)
  case (1 n)
  show ?case
  proof (cases "n < 10")
    case True
    then have e: "digits n = [''0123456789'' ! n]"
      by (subst digits.simps) simp
    show ?thesis
      unfolding e using digit_val_nth [OF True] digit_nth_plain [OF True]
      by (simp add: plain_def)
  next
    case False
    have m: "n mod 10 < 10" by simp
    from 1 [OF False] have ih: "parse_uint (digits (n div 10)) 0 = Some (n div 10)"
      "\<forall>c \<in> set (digits (n div 10)). plain c" by simp_all
    have e: "digits n = digits (n div 10) @ [''0123456789'' ! (n mod 10)]"
      using False by (subst digits.simps) simp
    have "10 * (n div 10) + n mod 10 = n" by simp
    then show ?thesis
      unfolding e using ih digit_val_nth [OF m] digit_nth_plain [OF m]
      by (simp add: parse_uint_append plain_def)
  qed
qed

lemma parse_uint_zeros: "parse_uint (replicate k (CHR ''0'') @ ds) 0 = parse_uint ds 0"
  by (induction k) (simp_all add: digit_val_def)

lemma pad0_facts:
  "parse_uint (pad0 w (digits n)) 0 = Some n \<and> pad0 w (digits n) \<noteq> []
   \<and> (\<forall>c \<in> set (pad0 w (digits n)). plain c)"
proof -
  from digits_facts [of n]
  have a: "parse_uint (digits n) 0 = Some n" and b: "digits n \<noteq> []"
    and c: "\<forall>c \<in> set (digits n). plain c"
    by blast+
  have 1: "parse_uint (pad0 w (digits n)) 0 = Some n"
    by (simp only: pad0_def parse_uint_zeros a)
  have 2: "pad0 w (digits n) \<noteq> []"
    using b by (simp add: pad0_def)
  have "plain (CHR ''0'')"
    by (simp add: plain_def)
  then have 3: "\<forall>c \<in> set (pad0 w (digits n)). plain c"
    using c by (auto simp: pad0_def)
  from 1 2 3 show ?thesis by blast
qed

lemma ParseInt_plain:
  assumes "parse_uint ds 0 = Some n" "ds \<noteq> []" "\<forall>c \<in> set ds. plain c" "n < 2 ^ 63"
  shows "ParseInt ds = Inr (int n)"
proof -
  have "plain (hd ds)" using assms(2,3) by (cases ds) auto
  then have "hd ds \<noteq> CHR ''+''" "hd ds \<noteq> CHR ''-''"
    by (simp_all add: plain_def)
  then show ?thesis
    using assms by (simp add: ParseInt_def Let_def)
qed

lemma takeWhile_until: "\<forall>c \<in> set xs. P c \<Longrightarrow> \<not> P y \<Longrightarrow> takeWhile P (xs @ y # ys) = xs"
  by (induction xs) auto

lemma Base_Join:
  assumes "\<forall>c \<in> set stem. plain c"
  shows "Base (Join path (stem @ ''.data'')) = stem @ ''.data''"
proof -
  have tw: "takeWhile (\<lambda>c. c \<noteq> CHR ''/'') (rev stem @ CHR ''/'' # rev path) = rev stem"
    using assms by (intro takeWhile_until) (auto simp: plain_def)
  show ?thesis
    by (simp add: Base_def Join_def Let_def tw)
qed

lemma Ext_Join: "Ext (Join path (stem @ ''.data'')) = ''.data''"
  by (simp add: Ext_def Join_def)

lemma TrimSuffix_data: "TrimSuffix (stem @ ''.data'') ''.data'' = stem"
  by (simp add: TrimSuffix_def suffix_def)

text \<open>Every name the engine gives a segment with an id that is not negative parses back to it.\<close>

lemma parsed_id_segment_name:
  assumes "0 \<le> i" "i < 2 ^ 63"
  shows "parsed_id (Join path (defaultDatafileFilename i)) = Inr i"
proof -
  let ?stem = "pad0 9 (digits (nat i))"
  note f = pad0_facts [of 9 "nat i"]
  have n: "defaultDatafileFilename i = ?stem @ ''.data''"
    using assms(1) by (simp add: defaultDatafileFilename_def)
  have lt: "nat i < 2 ^ 63"
    using assms by (simp add: nat_less_iff)
  have "ParseInt ?stem = Inr (int (nat i))"
    using f lt by (intro ParseInt_plain) simp_all
  then show ?thesis
    using assms(1) f
    by (simp add: parsed_id_def n Base_Join Ext_Join TrimSuffix_data)
qed


lemma parse_each_segment_names:
  "\<forall>i \<in> set is. 0 \<le> i \<and> i < 2 ^ 63 \<Longrightarrow>
     parse_each (map (\<lambda>i. Join path (defaultDatafileFilename i)) is) acc = Inr (acc @ is)"
proof (induction "is" arbitrary: acc)
  case Nil
  then show ?case by simp
next
  case (Cons i "is")
  have "ParseInt (TrimSuffix (Base (Join path (defaultDatafileFilename i)))
                    (Ext (Join path (defaultDatafileFilename i)))) = Inr i"
    using parsed_id_segment_name [of i path] Cons.prems by (simp add: parsed_id_def)
  then show ?case
    using Cons.IH [of "acc @ [i]"] Cons.prems by simp
qed

text \<open>
  On the names of segments \<open>is\<close> (ids that are not negative), \<open>ParseIds\<close> returns as many
  zeros followed by the ids in ascending order.
\<close>

lemma ParseIds_segment_names:
  assumes "\<forall>i \<in> set is. 0 \<le> i \<and> i < 2 ^ 63"
  shows "ParseIds (map (\<lambda>i. Join path (defaultDatafileFilename i)) is)
           = Inr (replicate (length is) 0 @ sort is)"
proof -
  have "\<forall>x \<in> set is. 0 \<le> x" using assms by simp
  then have "sort (replicate (length is) 0 @ is) = replicate (length is) 0 @ sort is"
    by (rule sort_zeros)
  then show ?thesis
    by (simp add: ParseIds_def parse_each_segment_names [OF assms])
qed

text \<open>
  What \<open>reopen\<close> establishes for the active segment, and what a completed \<open>Put\<close> keeps:
  the hypotheses on the engine state that the theorems above make.
\<close>

lemma reopen_active:
  assumes "reopen path cfg s = (Inr b, s')"
  shows "active_consistent b s'"
    and "df_w (b_curr b)" "\<not> df_closed (b_curr b)"
    and "df_name (b_curr b) = Join (b_path b) (defaultDatafileFilename (df_id (b_curr b)))"
proof -
  from assms obtain dfs lastID s1 tr c where
    nd: "NewDatafile path lastID False (MaxKeySize cfg) (MaxValueSize cfg) s1 = (Inr c, s')"
    and b: "b = \<lparr>b_cfg = cfg, b_path = path, b_curr = c, b_datafiles = dfs, b_t = tr\<rparr>"
    by (auto simp: reopen_def split: prod.splits sum.splits)
  note f = NewDatafile_Inr [OF nd]
  show "active_consistent b s'"
    by (simp add: active_consistent_def b f(1) f(2))
  show "df_w (b_curr b)" "\<not> df_closed (b_curr b)"
    by (simp_all add: b f(1))
  show "df_name (b_curr b) = Join (b_path b) (defaultDatafileFilename (df_id (b_curr b)))"
    by (simp add: b f(1))
qed

lemma Put_active:
  assumes "Put b s key val = (None, b', s')"
    and "df_name (b_curr b) = Join (b_path b) (defaultDatafileFilename (df_id (b_curr b)))"
  shows "df_w (b_curr b')" "\<not> df_closed (b_curr b')"
    and "df_name (b_curr b') = Join (b_path b') (defaultDatafileFilename (df_id (b_curr b')))"
proof -
  from assms(1) obtain off n b1 where p: "put b s key val = (Inr (off, n), b1, s')"
    and b': "b' = b1\<lparr>b_t := Insert key \<lparr>FileID = FileID_of (b_curr b1), ItemOffset = off, ItemSize = n\<rparr> (b_t b1)\<rparr>"
    by (rule Put_None)
  have "df_w (b_curr b1) \<and> \<not> df_closed (b_curr b1)
        \<and> df_name (b_curr b1) = Join (b_path b1) (defaultDatafileFilename (df_id (b_curr b1)))"
  proof (cases "Size (b_curr b) > MaxDatafileSize (b_cfg b)")
    case True
    note f = put_roll_Inr [OF p True]
    show ?thesis by (simp add: f(2) f(5))
  next
    case False
    note f = put_keep_Inr [OF p False]
    show ?thesis using f(6,7) assms(2) by (simp add: f(1))
  qed
  then show "df_w (b_curr b')" "\<not> df_closed (b_curr b')"
    and "df_name (b_curr b') = Join (b_path b') (defaultDatafileFilename (df_id (b_curr b')))"
    by (simp_all add: b')
qed


section \<open>The key length as Put checks it\<close>

text \<open>
  The size check of \<open>Put\<close> is made on \<open>uint32(len(key))\<close>: a key of \<open>2^32 + 1\<close> bytes
  passes it as a key of one byte.
\<close>

lemma Put_key_length_truncated:
  "length (replicate 4294967297 (0 :: byte)) > unat (MaxKeySize (b_cfg b_fresh))
   \<and> fst (Put b_fresh s_fresh (replicate 4294967297 0) [0x31]) = None"
proof -
  have lim: "\<not> (of_nat (length (replicate 4294967297 (0 :: byte))) :: 32 word) > MaxKeySize (b_cfg b_fresh)"
     "\<not> (of_nat (length [0x31 :: byte]) :: 64 word) > MaxValueSize (b_cfg b_fresh)"
    by (simp_all add: b_fresh_def cfg_ex_def)
  have "fst (Put b_fresh s_fresh (replicate 4294967297 0) [0x31]) = None"
    using lim by (simp add: Put_def put_keep_ok [OF fresh_ok])
  moreover have "length (replicate 4294967297 (0 :: byte)) > unat (MaxKeySize (b_cfg b_fresh))"
    by (simp add: b_fresh_def cfg_ex_def)
  ultimately show ?thesis by simp
qed


section \<open>Buffers without a length prefix\<close>

text \<open>
  Below twelve bytes there is no length prefix to judge: \<open>getKeyValueSizes\<close> slices out
  of range and \<open>ReadAt\<close> panics.
\<close>

lemma ReadAt_short_panics:
  assumes "readable d s off sz buf" and "sz < 12"
  shows "ReadAt d s off sz = Inl Panic"
proof -
  have len: "int (length buf) = sz"
    using assms(1) by (rule readable_length)
  then have "DecodeEntry buf zeroEntry (df_maxKeySize d) (df_maxValueSize d) = Inl Panic"
    using assms(2) by (simp add: DecodeEntry_def getKeyValueSizes_def keySize_def valueSize_def)
  then show ?thesis
    using assms(1) len by (simp add: ReadAt_def readable_def)
qed


section \<open>The round trip of put and get\<close>

lemma Put_admits:
  assumes "length key \<le> unat (MaxKeySize (b_cfg b))"
    and "length val \<le> unat (MaxValueSize (b_cfg b))"
  shows "\<not> (of_nat (length key) :: 32 word) > MaxKeySize (b_cfg b)"
    and "\<not> (of_nat (length val) :: 64 word) > MaxValueSize (b_cfg b)"
proof -
  have k: "unat (of_nat (length key) :: 32 word) = length key"
    using assms(1) by (rule unat_of_nat32)
  have v: "unat (of_nat (length val) :: 64 word) = length val"
    using assms(2) by (rule unat_of_nat64)
  show "\<not> (of_nat (length key) :: 32 word) > MaxKeySize (b_cfg b)"
    using assms(1) k by (simp add: word_less_nat_alt)
  show "\<not> (of_nat (length val) :: 64 word) > MaxValueSize (b_cfg b)"
    using assms(2) v by (simp add: word_less_nat_alt)
qed

text \<open>With no fault scheduled, the internal \<open>put\<close> on an open active segment completes.\<close>

lemma put_completes:
  assumes "active_open b s" and "faults s = []"
  shows "\<exists>off n b1 s'. put b s key val = (Inr (off, n), b1, s')"
proof (cases "Size (b_curr b) > MaxDatafileSize (b_cfg b)")
  case True
  have "Exists s (Join (b_path b) (defaultDatafileFilename (df_id (b_curr b))))"
    using assms(1) by (auto simp: active_open_def)
  from put_roll_ok [OF True this assms(2), of key val] show ?thesis by blast
next
  case False
  have "df_w (b_curr b)" "\<not> df_closed (b_curr b)" "\<not> df_werr (b_curr b)"
    using assms(1) by (simp_all add: active_open_def)
  from put_keep_ok [OF False this assms(2), of key val] show ?thesis by blast
qed

text \<open>
  With no fault scheduled, \<open>Put\<close> of a key and a value within the configured sizes on an
  open active segment returns a nil error.
\<close>

lemma Put_completes:
  assumes "length key \<le> unat (MaxKeySize (b_cfg b))"
    and "length val \<le> unat (MaxValueSize (b_cfg b))"
    and "active_open b s" and "faults s = []"
  shows "\<exists>b' s'. Put b s key val = (None, b', s')"
proof -
  from put_completes [OF assms(3,4), of key val]
  obtain off n b1 s' where p: "put b s key val = (Inr (off, n), b1, s')" by blast
  show ?thesis
    using Put_admits [OF assms(1,2)] by (simp add: Put_def p)
qed

text \<open>
  C7. Round trip. On an engine whose active segment is open for writing and in step with
  its file, with no write fault to come: for every key with
  \<open>0 < len(key) \<le> max_key_size\<close> and every value with \<open>len(value) \<le> max_value_size\<close>,
  \<open>Put\<close> returns a nil error, and \<open>Get\<close> of the key on the engine and the directory it
  leaves returns the value; this with and without a rollover. The claim's
  \<open>0 < len(value)\<close> is not needed: an empty value reads back as well, as long as the engine
  stays open.
\<close>

theorem put_get_roundtrip:
  assumes "0 < length key" "length key \<le> unat (MaxKeySize (b_cfg b))"
    and "length val \<le> unat (MaxValueSize (b_cfg b))"
    and "active_consistent b s" and "active_open b s" and "faults s = []"
  shows "\<exists>b' s'. Put b s key val = (None, b', s') \<and> Get b' s' key = Inr val"
proof -
  from Put_completes [OF assms(2,3,5,6)]
  obtain b' s' where p: "Put b s key val = (None, b', s')" by blast
  have "Get b' s' key = Inr val"
    using p assms(1,2,3,4) by (rule Put_then_Get)
  with p show ?thesis by blast
qed

lemma Write_Exists:
  "Write d e s = (Inr x, d', s') \<Longrightarrow> Exists s' (df_name d)"
  by (auto simp: Write_def Encode_def Let_def Exists_def emit_def update_conv'
           split: if_splits list.splits bool.splits)

lemma put_Inr_Exists:
  assumes "put b s key val = (Inr (off, n), b1, s')"
  shows "Exists s' (df_name (b_curr b1))"
proof (cases "Size (b_curr b) > MaxDatafileSize (b_cfg b)")
  case False
  obtain c' where w: "Write (b_curr b) (NewEntry key val) s = (Inr (off, n), c', s')"
    and b1: "b1 = b\<lparr>b_curr := c'\<rparr>"
    using assms by (auto simp: put_keep [OF False] split: prod.splits)
  have "df_name c' = df_name (b_curr b)"
    using Write_Inr(6) [OF w] by simp
  then show ?thesis
    using Write_Exists [OF w] by (simp add: b1)
next
  case True
  obtain r0 c0 s0 where c: "Close_df (b_curr b) s = (r0, c0, s0)"
    by (metis prod_cases3)
  obtain r1 s1 where n1: "NewDatafile (b_path b) (df_id c0) True (MaxKeySize (b_cfg b)) (MaxValueSize (b_cfg b)) s0 = (r1, s1)"
    by (metis surj_pair)
  obtain r2 s2 where n2: "NewDatafile (b_path b) (wrap64 (df_id c0 + 1)) False (MaxKeySize (b_cfg b)) (MaxValueSize (b_cfg b)) s1 = (r2, s2)"
    by (metis surj_pair)
  from assms obtain df where r1: "r1 = Inr df"
    by (cases r1) (auto simp: put_roll [OF True] c n1)
  from assms obtain df' where r2: "r2 = Inr df'"
    by (cases r2) (auto simp: put_roll [OF True] c n1 r1 n2)
  obtain c' where w: "Write df' (NewEntry key val) s2 = (Inr (off, n), c', s')"
    and b1: "b1 = b\<lparr>b_curr := c', b_datafiles := AList.update (df_id c0) df (b_datafiles b)\<rparr>"
    using assms by (auto simp: put_roll [OF True] c n1 r1 n2 r2 split: prod.splits)
  have "df_name c' = df_name df'"
    using Write_Inr(6) [OF w] by simp
  then show ?thesis
    using Write_Exists [OF w] by (simp add: b1)
qed

text \<open>
  \<open>reopen\<close> leaves the active segment open, and a completed \<open>Put\<close> keeps it open.
\<close>

lemma reopen_active_open:
  assumes "reopen path cfg s = (Inr b, s')"
  shows "active_open b s'"
proof -
  from assms obtain dfs lastID s1 tr c where
    nd: "NewDatafile path lastID False (MaxKeySize cfg) (MaxValueSize cfg) s1 = (Inr c, s')"
    and b: "b = \<lparr>b_cfg = cfg, b_path = path, b_curr = c, b_datafiles = dfs, b_t = tr\<rparr>"
    by (auto simp: reopen_def split: prod.splits sum.splits)
  note f = NewDatafile_Inr [OF nd]
  show ?thesis
    using f(5) by (simp add: active_open_def b f(1))
qed

lemma Put_active_open:
  assumes "Put b s key val = (None, b', s')" and "active_open b s"
  shows "active_open b' s'"
proof -
  from assms(1) obtain off n b1 where p: "put b s key val = (Inr (off, n), b1, s')"
    and b': "b' = b1\<lparr>b_t := Insert key \<lparr>FileID = FileID_of (b_curr b1), ItemOffset = off, ItemSize = n\<rparr> (b_t b1)\<rparr>"
    by (rule Put_None)
  have n: "df_name (b_curr b) = Join (b_path b) (defaultDatafileFilename (df_id (b_curr b)))"
    using assms(2) by (simp add: active_open_def)
  have a: "df_w (b_curr b')" "\<not> df_closed (b_curr b')"
    "df_name (b_curr b') = Join (b_path b') (defaultDatafileFilename (df_id (b_curr b')))"
    using Put_active [OF assms(1) n] by simp_all
  have e: "Exists s' (df_name (b_curr b'))"
    using put_Inr_Exists [OF p] by (simp add: b')
  have w: "\<not> df_werr (b_curr b')"
  proof (cases "Size (b_curr b) > MaxDatafileSize (b_cfg b)")
    case True
    show ?thesis by (simp add: b' put_roll_Inr(2) [OF p True])
  next
    case False
    have "\<not> df_werr (b_curr b)" using assms(2) by (simp add: active_open_def)
    then show ?thesis by (simp add: b' put_keep_Inr(1) [OF p False])
  qed
  from a e w show ?thesis by (simp add: active_open_def)
qed

theorem put_get_roundtrip_witness:
  "fst (Put b_fresh s_fresh [0x68] [0x77]) = None
   \<and> Get (fst (snd (Put b_fresh s_fresh [0x68] [0x77])))
          (snd (snd (Put b_fresh s_fresh [0x68] [0x77]))) [0x68] = Inr [0x77]
   \<and> length (replicate 64 (0x6b :: byte)) = unat (MaxKeySize (b_cfg b_fresh))
   \<and> fst (Put b_fresh s_fresh (replicate 64 0x6b) [0x77]) = None
   \<and> Get (fst (snd (Put b_fresh s_fresh (replicate 64 0x6b) [0x77])))
          (snd (snd (Put b_fresh s_fresh (replicate 64 0x6b) [0x77]))) (replicate 64 0x6b)
       = Inr [0x77]
   \<and> Size (b_curr b_full) > MaxDatafileSize (b_cfg b_full)
   \<and> fst (Put b_full s_full [0x6b] [0x76]) = None
   \<and> Get (fst (snd (Put b_full s_full [0x6b] [0x76])))
          (snd (snd (Put b_full s_full [0x6b] [0x76]))) [0x6b] = Inr [0x76]"
proof -
  have c: "active_consistent b_fresh s_fresh"
    by (simp add: active_consistent_def b_fresh_def s_fresh_def cfg_ex_def content_def)
  have o: "active_open b_fresh s_fresh"
    by (simp add: active_open_def b_fresh_def s_fresh_def name0' Exists_def)
  have f: "faults s_fresh = []"
    by (simp add: s_fresh_def)
  have m: "unat (MaxKeySize (b_cfg b_fresh)) = 64" "unat (MaxValueSize (b_cfg b_fresh)) = 65536"
    by (simp_all add: b_fresh_def cfg_ex_def)
  have 1: "fst (Put b_fresh s_fresh [0x68] [0x77]) = None
     \<and> Get (fst (snd (Put b_fresh s_fresh [0x68] [0x77])))
          (snd (snd (Put b_fresh s_fresh [0x68] [0x77]))) [0x68] = Inr [0x77]"
    using put_get_roundtrip [of "[0x68]" b_fresh "[0x77]" s_fresh, OF _ _ _ c o f]
    by (auto simp: m)
  have 2: "fst (Put b_fresh s_fresh (replicate 64 0x6b) [0x77]) = None
     \<and> Get (fst (snd (Put b_fresh s_fresh (replicate 64 0x6b) [0x77])))
          (snd (snd (Put b_fresh s_fresh (replicate 64 0x6b) [0x77]))) (replicate 64 0x6b)
       = Inr [0x77]"
    using put_get_roundtrip [of "replicate 64 0x6b" b_fresh "[0x77]" s_fresh, OF _ _ _ c o f]
    by (auto simp: m)
  have c': "active_consistent b_full s_full"
    by (simp add: active_consistent_def b_full_def s_full_def cfg_ex_def content_def
          length_EncodeBytes NewEntry_def)
  have o': "active_open b_full s_full"
    by (simp add: active_open_def b_full_def s_full_def name0' Exists_def)
  have f': "faults s_full = []"
    by (simp add: s_full_def)
  have m': "unat (MaxKeySize (b_cfg b_full)) = 64" "unat (MaxValueSize (b_cfg b_full)) = 65536"
    by (simp_all add: b_full_def cfg_ex_def)
  have big: "Size (b_curr b_full) > MaxDatafileSize (b_cfg b_full)"
    by (simp add: b_full_def cfg_ex_def Size_def)
  have 3: "fst (Put b_full s_full [0x6b] [0x76]) = None
     \<and> Get (fst (snd (Put b_full s_full [0x6b] [0x76])))
          (snd (snd (Put b_full s_full [0x6b] [0x76]))) [0x6b] = Inr [0x76]"
    using put_get_roundtrip [of "[0x6b]" b_full "[0x76]" s_full, OF _ _ _ c' o' f']
    by (auto simp: m')
  from 1 2 3 big show ?thesis
    by (simp add: m)
qed

end
